theory Spec2Isabelle
  imports Main "HOL-Library.Sublist" "HOL-Library.AList"
begin

section \<open>Text\<close>

text \<open>
  A JavaScript string is a sequence of UTF-16 code units. The development models the
  texts whose code units are below 256: one \<^typ>\<open>char\<close> is one code unit. Within that range
  the regular-expression class \<^verbatim>\<open>\s\<close> and \<^verbatim>\<open>String.prototype.trim\<close> recognise the
  same seven characters: tab, line feed, vertical tab, form feed, carriage return, space and
  the no-break space U+00A0.
\<close>

definition is_space :: "char \<Rightarrow> bool" where
  "is_space c = (c = CHR 0x09 \<or> c = CHR 0x0A \<or> c = CHR 0x0B \<or> c = CHR 0x0C \<or> c = CHR 0x0D
                 \<or> c = CHR 0x20 \<or> c = CHR 0xA0)"

text \<open>The class \<^verbatim>\<open>[{}:;,]\<close> of the CSS branch.\<close>

definition is_punct :: "char \<Rightarrow> bool" where
  "is_punct c = (c = CHR ''{'' \<or> c = CHR ''}'' \<or> c = CHR '':'' \<or> c = CHR '';'' \<or> c = CHR '','')"

text \<open>The class \<^verbatim>\<open>["']\<close> of the script-reference pattern.\<close>

definition is_quote :: "char \<Rightarrow> bool" where
  "is_quote c = (c = CHR 0x22 \<or> c = CHR 0x27)"

text \<open>
  The characters the pattern \<^verbatim>\<open>.\<close> refuses (no \<^verbatim>\<open>s\<close> flag): the line terminators,
  of which line feed and carriage return are below 256.
\<close>

definition is_line_terminator :: "char \<Rightarrow> bool" where
  "is_line_terminator c = (c = CHR 0x0A \<or> c = CHR 0x0D)"

text \<open>
  \<^verbatim>\<open>String.prototype.toLowerCase\<close> on one code unit below 256: the ASCII capitals and the
  Latin-1 capitals U+00C0 to U+00DE (the multiplication sign U+00D7 apart) move up by 32.
\<close>

definition upper_chars :: string where
  "upper_chars = ''ABCDEFGHIJKLMNOPQRSTUVWXYZ'' @
     [CHR 0xC0, CHR 0xC1, CHR 0xC2, CHR 0xC3, CHR 0xC4, CHR 0xC5, CHR 0xC6, CHR 0xC7,
      CHR 0xC8, CHR 0xC9, CHR 0xCA, CHR 0xCB, CHR 0xCC, CHR 0xCD, CHR 0xCE, CHR 0xCF,
      CHR 0xD0, CHR 0xD1, CHR 0xD2, CHR 0xD3, CHR 0xD4, CHR 0xD5, CHR 0xD6,
      CHR 0xD8, CHR 0xD9, CHR 0xDA, CHR 0xDB, CHR 0xDC, CHR 0xDD, CHR 0xDE]"

definition lower_chars :: string where
  "lower_chars = ''abcdefghijklmnopqrstuvwxyz'' @
     [CHR 0xE0, CHR 0xE1, CHR 0xE2, CHR 0xE3, CHR 0xE4, CHR 0xE5, CHR 0xE6, CHR 0xE7,
      CHR 0xE8, CHR 0xE9, CHR 0xEA, CHR 0xEB, CHR 0xEC, CHR 0xED, CHR 0xEE, CHR 0xEF,
      CHR 0xF0, CHR 0xF1, CHR 0xF2, CHR 0xF3, CHR 0xF4, CHR 0xF5, CHR 0xF6,
      CHR 0xF8, CHR 0xF9, CHR 0xFA, CHR 0xFB, CHR 0xFC, CHR 0xFD, CHR 0xFE]"

definition toLowerCase :: "string \<Rightarrow> string" where
  "toLowerCase s =
     map (\<lambda>c. case map_of (zip upper_chars lower_chars) c of Some l \<Rightarrow> l | None \<Rightarrow> c) s"

section \<open>The CSS branch of processFile\<close>

text \<open>
  Lines 172 to 176 of build.js:
  \<^verbatim>\<open>
  css = css
    .replace(/\/\*[\s\S]*?\*\//g, '')
    .replace(/\s+/g, ' ')
    .replace(/\s*([{}:;,])\s*/g, '$1')
    .trim();
  \<close>
  Each global replace scans the text from left to right; where the pattern matches at the
  current position the match is replaced and the scan goes on behind it, otherwise the
  character is kept and the scan moves one character on. None of the three patterns
  matches the empty string.
\<close>

text \<open>
  \<^verbatim>\<open>[\s\S]*?\*\/\<close> is lazy: \<open>find_close\<close> returns the text behind the first
  \<^verbatim>\<open>*/\<close>, if there is one.
\<close>

fun find_close :: "string \<Rightarrow> string option" where
  "find_close (a # b # r) = (if a = CHR ''*'' \<and> b = CHR ''/'' then Some r else find_close (b # r))"
| "find_close _ = None"

text \<open>A match of \<^verbatim>\<open>\/\*[\s\S]*?\*\/\<close> at the head of the text, and what follows it.\<close>

fun comment_at :: "string \<Rightarrow> string option" where
  "comment_at (a # b # r) = (if a = CHR ''/'' \<and> b = CHR ''*'' then find_close r else None)"
| "comment_at _ = None"

lemma find_close_length: "find_close s = Some r \<Longrightarrow> length r < length s"
  by (induction s rule: find_close.induct) (auto split: if_splits)

lemma comment_at_length: "comment_at s = Some r \<Longrightarrow> length r < length s"
  by (cases s rule: comment_at.cases) (auto split: if_splits dest: find_close_length)

function strip_comments :: "string \<Rightarrow> string" where
  "strip_comments [] = []"
| "strip_comments (c # cs) =
     (case comment_at (c # cs) of
        Some r \<Rightarrow> strip_comments r
      | None \<Rightarrow> c # strip_comments cs)"
  by pat_completeness auto
termination
  by (relation "measure length") (auto dest: comment_at_length)

text \<open>\<^verbatim>\<open>.replace(/\s+/g, ' ')\<close>: \<^verbatim>\<open>\s+\<close> is greedy and takes the whole run.\<close>

function collapse_ws :: "string \<Rightarrow> string" where
  "collapse_ws [] = []"
| "collapse_ws (c # cs) =
     (if is_space c then CHR '' '' # collapse_ws (dropWhile is_space cs)
      else c # collapse_ws cs)"
  by pat_completeness auto
termination
  by (relation "measure length") (auto simp: less_Suc_eq_le length_dropWhile_le)

lemma dropWhile_Cons_length: "dropWhile P s = p # r \<Longrightarrow> length (dropWhile Q r) < length s"
  using length_dropWhile_le [of P s] length_dropWhile_le [of Q r] by simp

text \<open>
  \<^verbatim>\<open>.replace(/\s*([{}:;,])\s*/g, '$1')\<close>: at a position the greedy \<^verbatim>\<open>\s*\<close> takes the
  whole run of white space; the pattern matches there exactly when a character of
  \<^verbatim>\<open>[{}:;,]\<close> follows the run (giving white space back never helps: the next character
  would be white space). The match also takes the run behind that character.
\<close>

function strip_punct_ws :: "string \<Rightarrow> string" where
  "strip_punct_ws [] = []"
| "strip_punct_ws (c # cs) =
     (case dropWhile is_space (c # cs) of
        p # r \<Rightarrow> if is_punct p then p # strip_punct_ws (dropWhile is_space r)
                 else c # strip_punct_ws cs
      | [] \<Rightarrow> c # strip_punct_ws cs)"
  by pat_completeness auto
termination
  by (relation "measure length")
    (auto simp del: dropWhile.simps dest: dropWhile_Cons_length [where Q = is_space])

definition trim :: "string \<Rightarrow> string" where
  "trim s = rev (dropWhile is_space (rev (dropWhile is_space s)))"

definition css_minify :: "string \<Rightarrow> string" where
  "css_minify css = trim (strip_punct_ws (collapse_ws (strip_comments css)))"

text \<open>
  A text has a block comment when the first pattern matches somewhere in it: an opening
  \<^verbatim>\<open>/*\<close> with a closing \<^verbatim>\<open>*/\<close> behind it.
\<close>

fun has_comment :: "string \<Rightarrow> bool" where
  "has_comment [] = False"
| "has_comment (c # cs) = (comment_at (c # cs) \<noteq> None \<or> has_comment cs)"

text \<open>
  Two shapes of text, used in the proofs about \<open>css_minify\<close>: white space only as single
  blanks, and, on top of that, no blank next to a character of \<^verbatim>\<open>[{}:;,]\<close>.
\<close>

fun single_blanks :: "string \<Rightarrow> bool" where
  "single_blanks [] = True"
| "single_blanks (a # s) =
     ((is_space a \<longrightarrow> a = CHR '' '' \<and> (case s of [] \<Rightarrow> True | b # _ \<Rightarrow> \<not> is_space b))
      \<and> single_blanks s)"

fun tidy :: "string \<Rightarrow> bool" where
  "tidy [] = True"
| "tidy (a # s) =
     ((is_space a \<longrightarrow> a = CHR '' '' \<and> (case s of [] \<Rightarrow> True | b # _ \<Rightarrow> \<not> is_space b \<and> \<not> is_punct b))
      \<and> (is_punct a \<longrightarrow> (case s of [] \<Rightarrow> True | b # _ \<Rightarrow> \<not> is_space b))
      \<and> tidy s)"

section \<open>Paths\<close>

text \<open>
  build.js handles paths through Node's \<^verbatim>\<open>path\<close> module, which is not part of the
  repository. Its functions are modelled here in the POSIX flavour and on the paths this
  build gives them: relative paths (the configuration has \<^verbatim>\<open>inputDir: '.'\<close> and
  \<^verbatim>\<open>outputDir: './dist'\<close>) that stay below the working directory and end in no
  separator.
\<close>

definition path_sep :: string where
  "path_sep = ''/''"

text \<open>The pieces of a path between its separators, as \<^verbatim>\<open>split('/')\<close> gives them.\<close>

fun split_sep :: "string \<Rightarrow> string list" where
  "split_sep [] = [[]]"
| "split_sep (c # cs) =
     (if c = CHR ''/'' then [] # split_sep cs
      else (case split_sep cs of x # xs \<Rightarrow> (c # x) # xs | [] \<Rightarrow> [[c]]))"

fun join_sep :: "string list \<Rightarrow> string" where
  "join_sep [] = []"
| "join_sep [s] = s"
| "join_sep (s # t # ss) = s @ ''/'' @ join_sep (t # ss)"

text \<open>
  Normalisation drops empty and \<^verbatim>\<open>.\<close> segments; a \<^verbatim>\<open>..\<close> segment removes the
  segment before it, or stays when there is none (or only \<^verbatim>\<open>..\<close>) before it. The
  accumulator holds the segments kept so far, last first.
\<close>

fun norm_segs :: "string list \<Rightarrow> string list \<Rightarrow> string list" where
  "norm_segs acc [] = rev acc"
| "norm_segs acc (s # ss) =
     (if s = [] \<or> s = ''.'' then norm_segs acc ss
      else if s = ''..'' then
        (case acc of
           [] \<Rightarrow> norm_segs [s] ss
         | a # acc' \<Rightarrow> if a = ''..'' then norm_segs (s # acc) ss else norm_segs acc' ss)
      else norm_segs (s # acc) ss)"

text \<open>The segments of a path from the working directory; the file system is keyed by them.\<close>

definition path_segments :: "string \<Rightarrow> string list" where
  "path_segments p = norm_segs [] (split_sep p)"

definition path_normalize :: "string \<Rightarrow> string" where
  "path_normalize p = (case path_segments p of [] \<Rightarrow> ''.'' | s # ss \<Rightarrow> join_sep (s # ss))"

text \<open>\<^verbatim>\<open>path.join(a, b)\<close>: the non-empty arguments joined by the separator, then normalised.\<close>

definition path_join :: "string \<Rightarrow> string \<Rightarrow> string" where
  "path_join a b =
     path_normalize (if a = [] then b else if b = [] then a else a @ path_sep @ b)"

text \<open>\<^verbatim>\<open>path.dirname(p)\<close>: what stands before the last separator, \<^verbatim>\<open>.\<close> without one.\<close>

definition path_dirname :: "string \<Rightarrow> string" where
  "path_dirname p =
     (if CHR ''/'' \<in> set p then rev (tl (dropWhile (\<lambda>c. c \<noteq> CHR ''/'') (rev p))) else ''.'')"

text \<open>\<^verbatim>\<open>path.basename(p)\<close>: what stands behind the last separator.\<close>

definition path_basename :: "string \<Rightarrow> string" where
  "path_basename p = rev (takeWhile (\<lambda>c. c \<noteq> CHR ''/'') (rev p))"

text \<open>
  \<^verbatim>\<open>path.extname(p)\<close>: the base name from its last dot on. It is empty when the base name
  has no dot, when its only dot is its first character, and for \<^verbatim>\<open>..\<close>.
\<close>

definition path_extname :: "string \<Rightarrow> string" where
  "path_extname p =
     (let b = path_basename p;
          stem = rev (tl (dropWhile (\<lambda>c. c \<noteq> CHR ''.'') (rev b)));
          suffix = rev (takeWhile (\<lambda>c. c \<noteq> CHR ''.'') (rev b))
      in if CHR ''.'' \<notin> set b then []
         else if stem = [] then []
         else if b = ''..'' then []
         else CHR ''.'' # suffix)"

text \<open>
  \<^verbatim>\<open>path.relative(from, to)\<close>: one \<^verbatim>\<open>..\<close> for every segment of \<open>from\<close> behind the
  common prefix, then the segments of \<open>to\<close> behind it; the empty string when both name the
  same place.
\<close>

definition path_relative :: "string \<Rightarrow> string \<Rightarrow> string" where
  "path_relative from to =
     (let f = path_segments from;
          t = path_segments to;
          n = length (longest_common_prefix f t)
      in join_sep (replicate (length f - n) ''..'' @ drop n t))"

section \<open>Configuration\<close>

text \<open>
  The \<^verbatim>\<open>config\<close> object of build.js, lines 8 to 38. \<^verbatim>\<open>allowedDomains\<close> is
  \<^verbatim>\<open>null\<close> or an array of domain names.
\<close>

record config =
  inputDir :: string
  outputDir :: string
  exclude :: "string list"
  obfuscateFilenames :: bool
  minify :: bool
  allowedDomains :: "string list option"

definition shipped_config :: config where
  "shipped_config =
     \<lparr> inputDir = ''.'',
       outputDir = ''./dist'',
       exclude = [''node_modules'', ''dist'', ''.git'', ''.gitignore'', ''package.json'',
                  ''package-lock.json'', ''build.js'', ''README.md'', ''.DS_Store'',
                  ''old-index.html''],
       obfuscateFilenames = False,
       minify = True,
       allowedDomains = None \<rparr>"

section \<open>The exclusion filter\<close>

text \<open>
  Lines 51 to 58:
  \<^verbatim>\<open>
  const shouldExclude = (filePath) => {
    const relativePath = path.relative(config.inputDir, filePath);
    return config.exclude.some(excluded =>
      relativePath === excluded ||
      relativePath.startsWith(excluded + path.sep) ||
      path.basename(filePath) === excluded
    );
  };
  \<close>
\<close>

definition shouldExclude :: "config \<Rightarrow> string \<Rightarrow> bool" where
  "shouldExclude cfg filePath =
     (let relativePath = path_relative (inputDir cfg) filePath
      in list_ex (\<lambda>excluded.
           relativePath = excluded \<or>
           prefix (excluded @ path_sep) relativePath \<or>
           path_basename filePath = excluded) (exclude cfg))"

text \<open>
  A name as a directory listing gives it: not empty, not \<^verbatim>\<open>.\<close> or \<^verbatim>\<open>..\<close>, and
  without a separator.
\<close>

definition entry_name :: "string \<Rightarrow> bool" where
  "entry_name n = (n \<noteq> [] \<and> n \<noteq> ''.'' \<and> n \<noteq> ''..'' \<and> CHR ''/'' \<notin> set n)"

section \<open>The domain guard\<close>

text \<open>
  \<^verbatim>\<open>JSON.stringify\<close> of an array of strings, on code units below 256: the quotation mark,
  the backslash and the control characters are escaped, every other character stands for
  itself; the elements are separated by commas, without white space.
\<close>

definition hex_digit :: "nat \<Rightarrow> char" where
  "hex_digit d = ''0123456789abcdef'' ! (d mod 16)"

definition json_escape :: "char \<Rightarrow> string" where
  "json_escape c =
     (if c = CHR 0x22 then [CHR 0x5C, CHR 0x22]
      else if c = CHR 0x5C then [CHR 0x5C, CHR 0x5C]
      else if c = CHR 0x08 then [CHR 0x5C, CHR ''b'']
      else if c = CHR 0x0C then [CHR 0x5C, CHR ''f'']
      else if c = CHR 0x0A then [CHR 0x5C, CHR ''n'']
      else if c = CHR 0x0D then [CHR 0x5C, CHR ''r'']
      else if c = CHR 0x09 then [CHR 0x5C, CHR ''t'']
      else if (of_char c :: nat) < 32
        then [CHR 0x5C, CHR ''u'', CHR ''0'', CHR ''0'',
              hex_digit ((of_char c :: nat) div 16), hex_digit (of_char c :: nat)]
      else [c])"

definition json_string :: "string \<Rightarrow> string" where
  "json_string s = [CHR 0x22] @ concat (map json_escape s) @ [CHR 0x22]"

fun join_comma :: "string list \<Rightarrow> string" where
  "join_comma [] = []"
| "join_comma [s] = s"
| "join_comma (s # t # ss) = s @ '','' @ join_comma (t # ss)"

definition json_string_array :: "string list \<Rightarrow> string" where
  "json_string_array ds = ''['' @ join_comma (map json_string ds) @ '']''"

text \<open>
  The template literal of lines 73 to 80, with \<^verbatim>\<open>${domainsArray}\<close> filled in; its lines
  are separated by line feeds and keep their indentation.
  \<^verbatim>\<open>
  return `(function(){
      var a=${domainsArray};
      var h=location.hostname;
      if(location.protocol!=='file:'&&h!==''&&h!=='localhost'&&!h.endsWith('.pages.dev')&&!a.some(function(d){return h===d||h.endsWith('.'+d);})){
        document.body.innerHTML='<div style="text-align:center;margin-top:200px;font-size:20px;">Unauthorized Access</div>';
        throw new Error('Domain verification failed');
      }
    })();`;
  \<close>
\<close>

definition guard_snippet :: "string \<Rightarrow> string" where
  \<open>guard_snippet domainsArray =
     ''(function(){'' @ [CHR 0x0A] @
     ''    var a='' @ domainsArray @ '';'' @ [CHR 0x0A] @
     ''    var h=location.hostname;'' @ [CHR 0x0A] @
     ''    if(location.protocol!=='file:'&&h!=='' @ [CHR 0x27, CHR 0x27] @
       ''&&h!=='localhost'&&!h.endsWith('.pages.dev')&&!a.some(function(d){return h===d||h.endsWith('.'+d);})){'' @ [CHR 0x0A] @
     ''      document.body.innerHTML='<div style="text-align:center;margin-top:200px;font-size:20px;">Unauthorized Access</div>';'' @ [CHR 0x0A] @
     ''      throw new Error('Domain verification failed');'' @ [CHR 0x0A] @
     ''    }'' @ [CHR 0x0A] @
     ''  })();''\<close>

text \<open>
  Lines 67 to 81:
  \<^verbatim>\<open>
  const getAntiTamperCode = () => {
    if (!config.allowedDomains || config.allowedDomains.length === 0) {
      return '';
    }
    const domainsArray = JSON.stringify(config.allowedDomains);
    return `...`;
  };
  \<close>
\<close>

definition getAntiTamperCode :: "config \<Rightarrow> string" where
  "getAntiTamperCode cfg =
     (case allowedDomains cfg of
        None \<Rightarrow> []
      | Some ds \<Rightarrow>
          if length ds = 0 then []
          else (let domainsArray = json_string_array ds in guard_snippet domainsArray))"

section \<open>Rewriting script references\<close>

text \<open>
  Lines 146 to 149:
  \<^verbatim>\<open>
  fileMapping.forEach((obfuscatedName, originalName) => {
    const scriptRegex = new RegExp(`src=["']([^"']*${originalName})["']`, 'g');
    html = html.replace(scriptRegex, `src="${obfuscatedName}"`);
  });
  \<close>
  The file name is pasted into the pattern as it is, so its characters are read as
  pattern syntax: a dot matches any character but a line terminator. The development
  covers the names in which the dot is the only character with a meaning of its own, and
  one kind of name for which \<^verbatim>\<open>new RegExp\<close> throws. For the other names with syntax
  characters (\<^verbatim>\<open>\ ^ $ * + ? ( ) [ ] { } |\<close>) the model answers \<open>OutsideModel\<close>. It does
  the same for a replacement that holds a dollar sign, which \<^verbatim>\<open>replace\<close> would read as
  a reference to the match.
\<close>

datatype error = ENOENT | ENOTDIR | EISDIR | RegExpSyntaxError | OutsideModel

datatype atom = Lit char | AnyChar

definition regex_special :: "char \<Rightarrow> bool" where
  "regex_special c = (c \<in> set ''^$*+?()[]{}|'' \<or> c = CHR 0x5C)"

text \<open>
  A name with a closing parenthesis and without an opening parenthesis, an opening
  bracket or a backslash: its first \<^verbatim>\<open>)\<close> closes the group of the pattern, nothing in the
  name opens another group, starts a class or escapes a character, so the \<^verbatim>\<open>)\<close> that
  follows the name in the pattern has no group to close and \<^verbatim>\<open>new RegExp\<close> throws a
  \<^verbatim>\<open>SyntaxError\<close>. Nothing catches it in \<^verbatim>\<open>processFile\<close>.
\<close>

definition unmatched_paren :: "string \<Rightarrow> bool" where
  "unmatched_paren originalName =
     (CHR '')'' \<in> set originalName \<and> CHR ''('' \<notin> set originalName
      \<and> CHR ''['' \<notin> set originalName \<and> CHR 0x5C \<notin> set originalName)"

definition name_atoms :: "string \<Rightarrow> atom list option" where
  "name_atoms originalName =
     (if list_ex regex_special originalName then None
      else Some (map (\<lambda>c. if c = CHR ''.'' then AnyChar else Lit c) originalName))"

fun atom_matches :: "atom \<Rightarrow> char \<Rightarrow> bool" where
  "atom_matches (Lit a) c = (c = a)"
| "atom_matches AnyChar c = (\<not> is_line_terminator c)"

text \<open>The atoms of the name matched at the head of the text; the result is what follows.\<close>

fun match_atoms :: "atom list \<Rightarrow> string \<Rightarrow> string option" where
  "match_atoms [] s = Some s"
| "match_atoms (a # as) [] = None"
| "match_atoms (a # as) (c # cs) = (if atom_matches a c then match_atoms as cs else None)"

text \<open>The name and the closing \<^verbatim>\<open>["']\<close>.\<close>

definition match_name_quote :: "atom list \<Rightarrow> string \<Rightarrow> string option" where
  "match_name_quote atoms s =
     (case match_atoms atoms s of
        Some (q # r) \<Rightarrow> if is_quote q then Some r else None
      | _ \<Rightarrow> None)"

text \<open>
  \<^verbatim>\<open>[^"']*\<close> is greedy: it first takes the whole run of characters that are no
  quotation marks, then gives them back one by one until the rest of the pattern matches.
  \<open>match_backtrack atoms s k\<close> tries the star with \<open>k\<close> characters, then with fewer.
\<close>

fun match_backtrack :: "atom list \<Rightarrow> string \<Rightarrow> nat \<Rightarrow> string option" where
  "match_backtrack atoms s 0 = match_name_quote atoms s"
| "match_backtrack atoms s (Suc k) =
     (case match_name_quote atoms (drop (Suc k) s) of
        Some r \<Rightarrow> Some r
      | None \<Rightarrow> match_backtrack atoms s k)"

text \<open>A match of the whole pattern at the head of the text, and what follows it.\<close>

definition match_src :: "atom list \<Rightarrow> string \<Rightarrow> string option" where
  "match_src atoms s =
     (if prefix ''src='' s then
        (case drop 4 s of
           [] \<Rightarrow> None
         | q # r \<Rightarrow>
             if is_quote q
             then match_backtrack atoms r (length (takeWhile (\<lambda>c. \<not> is_quote c) r))
             else None)
      else None)"

lemma match_atoms_length: "match_atoms atoms s = Some r \<Longrightarrow> length r \<le> length s"
  by (induction atoms s rule: match_atoms.induct) (auto split: if_splits)

lemma match_name_quote_length: "match_name_quote atoms s = Some r \<Longrightarrow> length r < length s"
  by (auto simp: match_name_quote_def split: option.splits list.splits if_splits
           dest: match_atoms_length)

lemma match_backtrack_length: "match_backtrack atoms s k = Some r \<Longrightarrow> length r < length s"
proof (induction k)
  case 0
  then show ?case by (auto dest: match_name_quote_length)
next
  case (Suc k)
  show ?case
  proof (cases "match_name_quote atoms (drop (Suc k) s)")
    case None
    with Suc show ?thesis by simp
  next
    case (Some r')
    with Suc.prems have "r' = r" by simp
    with Some have "length r < length (drop (Suc k) s)" by (auto dest: match_name_quote_length)
    then show ?thesis by simp
  qed
qed

lemma match_src_length: "match_src atoms s = Some r \<Longrightarrow> length r < length s"
proof -
  assume m: "match_src atoms s = Some r"
  then obtain q t where d: "drop 4 s = q # t"
    and b: "match_backtrack atoms t (length (takeWhile (\<lambda>c. \<not> is_quote c) t)) = Some r"
    by (auto simp: match_src_def split: if_splits list.splits)
  from b have "length r < length t" by (rule match_backtrack_length)
  moreover from d have "length (drop 4 s) = Suc (length t)" by simp
  then have "length t < length s" by simp
  ultimately show ?thesis by simp
qed

text \<open>The global replace: the leftmost match, then the next one behind it.\<close>

function replace_src :: "atom list \<Rightarrow> string \<Rightarrow> string \<Rightarrow> string" where
  "replace_src atoms replacement [] = []"
| "replace_src atoms replacement (c # cs) =
     (case match_src atoms (c # cs) of
        Some r \<Rightarrow> replacement @ replace_src atoms replacement r
      | None \<Rightarrow> c # replace_src atoms replacement cs)"
  by pat_completeness auto
termination
  by (relation "measure (\<lambda>(atoms, replacement, s). length s)") (auto dest: match_src_length)

text \<open>The loop over the mapping, in the order of its entries.\<close>

fun update_refs :: "(string \<times> string) list \<Rightarrow> string \<Rightarrow> error + string" where
  "update_refs [] html = Inr html"
| "update_refs ((originalName, obfuscatedName) # rest) html =
     (case name_atoms originalName of
        None \<Rightarrow> if unmatched_paren originalName then Inl RegExpSyntaxError else Inl OutsideModel
      | Some atoms \<Rightarrow>
          if CHR ''$'' \<in> set obfuscatedName then Inl OutsideModel
          else update_refs rest
                 (replace_src atoms (''src='' @ [CHR 0x22] @ obfuscatedName @ [CHR 0x22]) html))"

section \<open>The file system\<close>

text \<open>
  The build reads below the source root and writes below the output root. The read side
  is a tree whose directories list their entries in the order \<^verbatim>\<open>readdirSync\<close> returns
  them; the write side is a map from the segments of a path to what lies there. Keeping
  the two apart is faithful as long as the walk does not enter the output directory, which
  the shipped exclusion list (\<^verbatim>\<open>'dist'\<close>) sees to. Both sides hold texts: the content of
  a file is the string \<^verbatim>\<open>readFileSync(path, 'utf8')\<close> gives for it. The bytes of a file
  are not part of the model. \<^verbatim>\<open>readFileSync\<close> decodes them as UTF-8, reading U+FFFD for
  what is no UTF-8, \<^verbatim>\<open>writeFileSync\<close> encodes the text it is given, and \<^verbatim>\<open>copyFileSync\<close>
  copies the bytes, which leaves the text as it is: what is said below about the content
  of a file written is said about its text.
\<close>

datatype fsnode = FileNode string | DirNode "(string \<times> fsnode) list"

datatype entry = FileEntry string | DirEntry

type_synonym outfs = "string list \<Rightarrow> entry option"

fun lookup :: "fsnode \<Rightarrow> string list \<Rightarrow> fsnode option"
  and lookup_in :: "(string \<times> fsnode) list \<Rightarrow> string \<Rightarrow> string list \<Rightarrow> fsnode option" where
  "lookup n [] = Some n"
| "lookup (FileNode c) (s # ss) = None"
| "lookup (DirNode kids) (s # ss) = lookup_in kids s ss"
| "lookup_in [] s ss = None"
| "lookup_in ((name, k) # kids) s ss = (if name = s then lookup k ss else lookup_in kids s ss)"

text \<open>\<^verbatim>\<open>fs.readFileSync(path, 'utf8')\<close> on the read side.\<close>

definition readFileSync :: "fsnode \<Rightarrow> string \<Rightarrow> error + string" where
  "readFileSync src p =
     (case lookup src (path_segments p) of
        None \<Rightarrow> Inl ENOENT
      | Some (DirNode kids) \<Rightarrow> Inl EISDIR
      | Some (FileNode content) \<Rightarrow> Inr content)"

text \<open>\<^verbatim>\<open>fs.existsSync(path)\<close> on the write side; the working directory itself exists.\<close>

definition existsSync :: "outfs \<Rightarrow> string \<Rightarrow> bool" where
  "existsSync fs p = (path_segments p = [] \<or> fs (path_segments p) \<noteq> None)"

text \<open>
  \<^verbatim>\<open>fs.mkdirSync(path, { recursive: true })\<close>: every directory on the way is created
  unless it is there; a regular file on the way is an error.
\<close>

fun mkdirs :: "outfs \<Rightarrow> string list list \<Rightarrow> error + outfs" where
  "mkdirs fs [] = Inr fs"
| "mkdirs fs (q # qs) =
     (case fs q of
        Some (FileEntry content) \<Rightarrow> Inl ENOTDIR
      | Some DirEntry \<Rightarrow> mkdirs fs qs
      | None \<Rightarrow> mkdirs (fs(q \<mapsto> DirEntry)) qs)"

definition mkdirSync :: "outfs \<Rightarrow> string \<Rightarrow> error + outfs" where
  "mkdirSync fs p = mkdirs fs (tl (prefixes (path_segments p)))"

text \<open>
  \<^verbatim>\<open>fs.writeFileSync(path, data)\<close>: the directory of the file must be there, and the path
  must not name a directory; an existing file is overwritten.
\<close>

definition writeFileSync :: "outfs \<Rightarrow> string \<Rightarrow> string \<Rightarrow> error + outfs" where
  "writeFileSync fs p content =
     (let segs = path_segments p in
      if segs = [] then Inl EISDIR
      else if butlast segs \<noteq> [] \<and> fs (butlast segs) = None then Inl ENOENT
      else if butlast segs \<noteq> [] \<and> fs (butlast segs) \<noteq> Some DirEntry then Inl ENOTDIR
      else if fs segs = Some DirEntry then Inl EISDIR
      else Inr (fs(segs \<mapsto> FileEntry content)))"

text \<open>
  The three lines both \<^verbatim>\<open>processFile\<close> (lines 89 to 91) and \<^verbatim>\<open>copyDir\<close> (lines 222
  to 224) begin with:
  \<^verbatim>\<open>
  if (!fs.existsSync(dir)) {
    fs.mkdirSync(dir, { recursive: true });
  }
  \<close>
\<close>

definition ensure_dir :: "outfs \<Rightarrow> string \<Rightarrow> error + outfs" where
  "ensure_dir fs dir = (if \<not> existsSync fs dir then mkdirSync fs dir else Inr fs)"

text \<open>
  The condition under which \<open>writeFileSync\<close> succeeds: the path names something, its
  directory is there and the path itself is no directory.
\<close>

definition writable :: "outfs \<Rightarrow> string \<Rightarrow> bool" where
  "writable fs p =
     (path_segments p \<noteq> []
      \<and> (butlast (path_segments p) = [] \<or> fs (butlast (path_segments p)) = Some DirEntry)
      \<and> fs (path_segments p) \<noteq> Some DirEntry)"

text \<open>\<^verbatim>\<open>fs.copyFileSync(src, dest)\<close>: from the read side to the write side.\<close>

definition copyFileSync :: "fsnode \<Rightarrow> outfs \<Rightarrow> string \<Rightarrow> string \<Rightarrow> error + outfs" where
  "copyFileSync src fs from to =
     (case readFileSync src from of
        Inl e \<Rightarrow> Inl e
      | Inr content \<Rightarrow> writeFileSync fs to content)"

text \<open>\<^verbatim>\<open>fs.rmSync(path, { recursive: true })\<close> on the write side.\<close>

definition rmSync :: "outfs \<Rightarrow> string \<Rightarrow> outfs" where
  "rmSync fs p = (\<lambda>q. if prefix (path_segments p) q then None else fs q)"

section \<open>What the build depends on and what it changes\<close>

text \<open>
  The libraries and the clock, which are not part of the repository: terser's
  \<^verbatim>\<open>minify\<close> and html-minifier-terser's \<^verbatim>\<open>minify\<close> with the options build.js passes
  (\<open>None\<close> when the call throws), the MD5 digest in hexadecimal, and the value of the
  \<open>n\<close>-th call of \<^verbatim>\<open>Date.now()\<close>.
\<close>

record env =
  terser :: "string \<Rightarrow> string option"
  minifyHTML :: "string \<Rightarrow> string option"
  md5_hex :: "string \<Rightarrow> string"
  date_now :: "nat \<Rightarrow> nat"

text \<open>
  The lines written to the console:
  \<^item> \<open>Warn_minify f\<close> is \<^verbatim>\<open>console.warn(`Could not minify ${f}, copying as-is`)\<close>;
  \<^item> \<open>Log_processed r None\<close> is \<^verbatim>\<open>console.log(`Processed ${r}`)\<close>, and
    \<open>Log_processed r (Some n)\<close> the same line with the new file name \<open>n\<close> behind an arrow;
  \<^item> \<open>Log_copied r\<close> is \<^verbatim>\<open>console.log(`Copied ${r}`)\<close>;
  \<^item> \<open>Log_no_data\<close> is \<^verbatim>\<open>console.log('No data/llm directory found, skipping...')\<close>;
  \<^item> \<open>Log_copying_data\<close> is \<^verbatim>\<open>console.log('\nCopying data/llm directory...')\<close>;
  \<^item> \<open>Log_building\<close> stands for the five lines that print the configuration and
    \<open>Log_complete\<close> for the two closing lines.
\<close>

datatype log_line =
    Warn_minify string
  | Log_processed string "string option"
  | Log_copied string
  | Log_no_data
  | Log_copying_data
  | Log_building
  | Log_complete

text \<open>
  The state a run changes: the write side of the file system, the module-level
  \<^verbatim>\<open>fileMapping\<close> (a \<^verbatim>\<open>Map\<close>: entries in the order their keys were first set, a later
  \<^verbatim>\<open>set\<close> of a key replaces the value in place), the console, and the number of calls of
  \<^verbatim>\<open>Date.now()\<close> so far.
\<close>

record state =
  out :: outfs
  fileMapping :: "(string \<times> string) list"
  console :: "log_line list"
  clock :: nat

section \<open>Obfuscated file names\<close>

text \<open>
  Lines 41 to 45:
  \<^verbatim>\<open>
  const generateObfuscatedName = (originalName) => {
    const hash = crypto.createHash('md5').update(originalName + Date.now()).digest('hex').substring(0, 8);
    const ext = path.extname(originalName);
    return `${hash}${ext}`;
  };
  \<close>
  \<open>decimal\<close> is the conversion of the time stamp to a string that \<^verbatim>\<open>+\<close> performs.
\<close>

definition digit_char :: "nat \<Rightarrow> char" where
  "digit_char d = ''0123456789'' ! (d mod 10)"

function decimal :: "nat \<Rightarrow> string" where
  "decimal n = (if n < 10 then [digit_char n] else decimal (n div 10) @ [digit_char n])"
  by pat_completeness auto
termination
  by (relation "measure id") auto

declare decimal.simps [simp del]

definition generateObfuscatedName :: "env \<Rightarrow> nat \<Rightarrow> string \<Rightarrow> string" where
  "generateObfuscatedName e now originalName =
     (let hash = take 8 (md5_hex e (originalName @ decimal now));
          ext = path_extname originalName
      in hash @ ext)"

section \<open>processFile\<close>

text \<open>
  The JavaScript branch, lines 97 to 139. The code read is kept when minification is off
  or when terser throws (the \<^verbatim>\<open>catch\<close> only warns); the guard is put in front when
  \<open>getAntiTamperCode\<close> returns a non-empty string; with \<^verbatim>\<open>obfuscateFilenames\<close> the
  file gets a new name, recorded under its base name with \<^verbatim>\<open>fileMapping.set\<close>.
  \<open>outDir\<close> is the local \<^verbatim>\<open>outputDir\<close> of the source, the directory of the output path.
\<close>

definition processFile_js ::
  "config \<Rightarrow> env \<Rightarrow> fsnode \<Rightarrow> string \<Rightarrow> string \<Rightarrow> string \<Rightarrow> state \<Rightarrow> error + state" where
  "processFile_js cfg e src filePath relativePath outDir st =
     (let fileName = path_basename filePath in
      case readFileSync src filePath of
        Inl err \<Rightarrow> Inl err
      | Inr code \<Rightarrow>
          (let outputCode =
                 (if minify cfg
                  then (case terser e code of Some result \<Rightarrow> result | None \<Rightarrow> code)
                  else code);
               warnings =
                 (if minify cfg \<and> terser e code = None then [Warn_minify fileName] else []);
               antiTamper = getAntiTamperCode cfg;
               outputCode' = (if antiTamper \<noteq> [] then antiTamper @ outputCode else outputCode);
               outputFileName =
                 (if obfuscateFilenames cfg
                  then generateObfuscatedName e (date_now e (clock st)) fileName
                  else fileName);
               mapping' =
                 (if obfuscateFilenames cfg
                  then AList.update fileName outputFileName (fileMapping st)
                  else fileMapping st);
               clock' = (if obfuscateFilenames cfg then Suc (clock st) else clock st);
               finalOutputPath = path_join outDir outputFileName
           in case writeFileSync (out st) finalOutputPath outputCode' of
                Inl err \<Rightarrow> Inl err
              | Inr out' \<Rightarrow>
                  Inr \<lparr> out = out',
                        fileMapping = mapping',
                        console = console st @ warnings @
                          [Log_processed relativePath
                             (if obfuscateFilenames cfg then Some outputFileName else None)],
                        clock = clock' \<rparr>))"

text \<open>
  The HTML branch, lines 141 to 167. The references are rewritten before the minifier
  runs, so the text kept when the minifier throws is the rewritten one.
\<close>

definition processFile_html ::
  "config \<Rightarrow> env \<Rightarrow> fsnode \<Rightarrow> string \<Rightarrow> string \<Rightarrow> string \<Rightarrow> state \<Rightarrow> error + state" where
  "processFile_html cfg e src filePath relativePath outputPath st =
     (let fileName = path_basename filePath in
      case readFileSync src filePath of
        Inl err \<Rightarrow> Inl err
      | Inr html \<Rightarrow>
          (case (if obfuscateFilenames cfg then update_refs (fileMapping st) html else Inr html) of
             Inl err \<Rightarrow> Inl err
           | Inr html' \<Rightarrow>
               (let html'' =
                      (if minify cfg
                       then (case minifyHTML e html' of Some result \<Rightarrow> result | None \<Rightarrow> html')
                       else html');
                    warnings =
                      (if minify cfg \<and> minifyHTML e html' = None then [Warn_minify fileName] else [])
                in case writeFileSync (out st) outputPath html'' of
                     Inl err \<Rightarrow> Inl err
                   | Inr out' \<Rightarrow>
                       Inr (st\<lparr> out := out',
                                console := console st @ warnings @ [Log_processed relativePath None] \<rparr>))))"

text \<open>The CSS branch, lines 169 to 179; it is taken only when minification is on.\<close>

definition processFile_css ::
  "fsnode \<Rightarrow> string \<Rightarrow> string \<Rightarrow> string \<Rightarrow> state \<Rightarrow> error + state" where
  "processFile_css src filePath relativePath outputPath st =
     (case readFileSync src filePath of
        Inl err \<Rightarrow> Inl err
      | Inr css \<Rightarrow>
          (case writeFileSync (out st) outputPath (css_minify css) of
             Inl err \<Rightarrow> Inl err
           | Inr out' \<Rightarrow>
               Inr (st\<lparr> out := out', console := console st @ [Log_processed relativePath None] \<rparr>)))"

text \<open>The last branch, lines 181 to 184: every other file is copied.\<close>

definition processFile_copy ::
  "fsnode \<Rightarrow> string \<Rightarrow> string \<Rightarrow> string \<Rightarrow> state \<Rightarrow> error + state" where
  "processFile_copy src filePath relativePath outputPath st =
     (case copyFileSync src (out st) filePath outputPath of
        Inl err \<Rightarrow> Inl err
      | Inr out' \<Rightarrow>
          Inr (st\<lparr> out := out', console := console st @ [Log_copied relativePath] \<rparr>))"

text \<open>
  Lines 84 to 95 and the dispatch on the extension:
  \<^verbatim>\<open>
  const processFile = async (filePath, relativePath) => {
    const outputPath = path.join(config.outputDir, relativePath);
    const outputDir = path.dirname(outputPath);
    if (!fs.existsSync(outputDir)) {
      fs.mkdirSync(outputDir, { recursive: true });
    }
    const ext = path.extname(filePath).toLowerCase();
    const fileName = path.basename(filePath);
    if (ext === '.js') { ... }
    else if (ext === '.html' || ext === '.htm') { ... }
    else if (ext === '.css' && config.minify) { ... }
    else { ... }
  };
  \<close>
  An exception of a file system call leaves the function (\<open>Inl\<close>); nothing in build.js
  catches it before the top level.
\<close>

definition processFile ::
  "config \<Rightarrow> env \<Rightarrow> fsnode \<Rightarrow> string \<Rightarrow> string \<Rightarrow> state \<Rightarrow> error + state" where
  "processFile cfg e src filePath relativePath st =
     (let outputPath = path_join (outputDir cfg) relativePath;
          outDir = path_dirname outputPath
      in case ensure_dir (out st) outDir of
           Inl err \<Rightarrow> Inl err
         | Inr out' \<Rightarrow>
             (let st' = st\<lparr> out := out' \<rparr>;
                  ext = toLowerCase (path_extname filePath)
              in if ext = ''.js'' then
                   processFile_js cfg e src filePath relativePath outDir st'
                 else if ext = ''.html'' \<or> ext = ''.htm'' then
                   processFile_html cfg e src filePath relativePath outputPath st'
                 else if ext = ''.css'' \<and> minify cfg then
                   processFile_css src filePath relativePath outputPath st'
                 else
                   processFile_copy src filePath relativePath outputPath st'))"

section \<open>The directory walker\<close>

text \<open>
  Lines 188 to 207:
  \<^verbatim>\<open>
  const processDirectory = async (dir, baseDir = dir) => {
    const items = fs.readdirSync(dir);
    for (const item of items) {
      const fullPath = path.join(dir, item);
      if (shouldExclude(fullPath)) { continue; }
      const stat = fs.statSync(fullPath);
      const relativePath = path.relative(baseDir, fullPath);
      if (stat.isDirectory()) { await processDirectory(fullPath, baseDir); }
      else { await processFile(fullPath, relativePath); }
    }
  };
  \<close>
  \<open>processItems\<close> is the loop over the listing of \<open>dir\<close>; the recursion follows the tree.
\<close>

fun processItems ::
  "config \<Rightarrow> env \<Rightarrow> fsnode \<Rightarrow> string \<Rightarrow> string \<Rightarrow> (string \<times> fsnode) list \<Rightarrow> state \<Rightarrow> error + state"
  where
  "processItems cfg e src baseDir dir [] st = Inr st"
| "processItems cfg e src baseDir dir ((item, node) # items) st =
     (let fullPath = path_join dir item in
      if shouldExclude cfg fullPath then processItems cfg e src baseDir dir items st
      else
        (let relativePath = path_relative baseDir fullPath in
         case (case node of
                 DirNode kids \<Rightarrow> processItems cfg e src baseDir fullPath kids st
               | FileNode content \<Rightarrow> processFile cfg e src fullPath relativePath st) of
           Inl err \<Rightarrow> Inl err
         | Inr st' \<Rightarrow> processItems cfg e src baseDir dir items st'))"

definition processDirectory :: "config \<Rightarrow> env \<Rightarrow> fsnode \<Rightarrow> string \<Rightarrow> state \<Rightarrow> error + state" where
  "processDirectory cfg e src dir st =
     (case lookup src (path_segments dir) of
        None \<Rightarrow> Inl ENOENT
      | Some (FileNode content) \<Rightarrow> Inl ENOTDIR
      | Some (DirNode items) \<Rightarrow> processItems cfg e src dir dir items st)"

section \<open>The data stager\<close>

text \<open>
  Lines 221 to 242, the inner \<^verbatim>\<open>copyDir\<close>:
  \<^verbatim>\<open>
  const copyDir = (src, dest) => {
    if (!fs.existsSync(dest)) {
      fs.mkdirSync(dest, { recursive: true });
    }
    const items = fs.readdirSync(src);
    for (const item of items) {
      const srcPath = path.join(src, item);
      const destPath = path.join(dest, item);
      const stat = fs.statSync(srcPath);
      if (stat.isDirectory()) {
        copyDir(srcPath, destPath);
      } else {
        if (path.extname(item).toLowerCase() === '.json') {
          fs.copyFileSync(srcPath, destPath);
          console.log(`Copied ${path.relative('.', srcPath)}`);
        }
      }
    }
  };
  \<close>
  \<open>copyDir root srcDir items dest\<close> has the listing \<open>items\<close> of \<open>srcDir\<close> at hand;
  \<open>copyItems\<close> is its loop.
\<close>

fun copyDir ::
  "fsnode \<Rightarrow> string \<Rightarrow> (string \<times> fsnode) list \<Rightarrow> string \<Rightarrow> state \<Rightarrow> error + state"
  and copyItems ::
  "fsnode \<Rightarrow> string \<Rightarrow> (string \<times> fsnode) list \<Rightarrow> string \<Rightarrow> state \<Rightarrow> error + state"
  where
  "copyDir root srcDir items dest st =
     (case ensure_dir (out st) dest of
        Inl err \<Rightarrow> Inl err
      | Inr out' \<Rightarrow> copyItems root srcDir items dest (st\<lparr> out := out' \<rparr>))"
| "copyItems root srcDir [] dest st = Inr st"
| "copyItems root srcDir ((item, node) # items) dest st =
     (let srcPath = path_join srcDir item;
          destPath = path_join dest item
      in case (case node of
                 DirNode kids \<Rightarrow> copyDir root srcPath kids destPath st
               | FileNode content \<Rightarrow>
                   if toLowerCase (path_extname item) = ''.json'' then
                     (case copyFileSync root (out st) srcPath destPath of
                        Inl err \<Rightarrow> Inl err
                      | Inr out' \<Rightarrow>
                          Inr (st\<lparr> out := out',
                                   console := console st @ [Log_copied (path_relative ''.'' srcPath)] \<rparr>))
                   else Inr st) of
           Inl err \<Rightarrow> Inl err
         | Inr st' \<Rightarrow> copyItems root srcDir items dest st')"

text \<open>
  Lines 210 to 245:
  \<^verbatim>\<open>
  const copyDataDirectory = () => {
    const dataLlmSrc = './data/llm';
    const dataLlmDest = path.join(config.outputDir, 'data/llm');
    if (!fs.existsSync(dataLlmSrc)) {
      console.log('No data/llm directory found, skipping...');
      return;
    }
    console.log('\nCopying data/llm directory...');
    ...
    copyDir(dataLlmSrc, dataLlmDest);
  };
  \<close>
\<close>

definition copyDataDirectory :: "config \<Rightarrow> fsnode \<Rightarrow> state \<Rightarrow> error + state" where
  "copyDataDirectory cfg root st =
     (let dataLlmSrc = ''./data/llm'';
          dataLlmDest = path_join (outputDir cfg) ''data/llm''
      in case lookup root (path_segments dataLlmSrc) of
           None \<Rightarrow> Inr (st\<lparr> console := console st @ [Log_no_data] \<rparr>)
         | Some (DirNode items) \<Rightarrow>
             copyDir root dataLlmSrc items dataLlmDest
               (st\<lparr> console := console st @ [Log_copying_data] \<rparr>)
         | Some (FileNode content) \<Rightarrow>
             (case ensure_dir (out st) dataLlmDest of
                Inl err \<Rightarrow> Inl err
              | Inr out' \<Rightarrow> Inl ENOTDIR))"

section \<open>The build\<close>

text \<open>
  Lines 61 to 64, run when the module is loaded: the output directory is removed and made
  anew.
\<close>

definition prepare_output :: "config \<Rightarrow> outfs \<Rightarrow> error + outfs" where
  "prepare_output cfg out0 =
     mkdirSync (if existsSync out0 (outputDir cfg) then rmSync out0 (outputDir cfg) else out0)
       (outputDir cfg)"

text \<open>
  Lines 248 to 268: the walk over \<^verbatim>\<open>config.inputDir\<close>, then the data stager. An error
  reaches \<^verbatim>\<open>build().catch\<close>, which prints it and exits with status 1.
\<close>

definition build :: "config \<Rightarrow> env \<Rightarrow> fsnode \<Rightarrow> outfs \<Rightarrow> error + state" where
  "build cfg e root out0 =
     (case prepare_output cfg out0 of
        Inl err \<Rightarrow> Inl err
      | Inr out1 \<Rightarrow>
          (case processDirectory cfg e root (inputDir cfg)
                  \<lparr> out = out1, fileMapping = [], console = [Log_building], clock = 0 \<rparr> of
             Inl err \<Rightarrow> Inl err
           | Inr st \<Rightarrow>
               (case copyDataDirectory cfg root st of
                  Inl err \<Rightarrow> Inl err
                | Inr st' \<Rightarrow> Inr (st'\<lparr> console := console st' @ [Log_complete] \<rparr>))))"

section \<open>Notions for stating the properties\<close>

text \<open>The extension \<^verbatim>\<open>processFile\<close> dispatches on.\<close>

definition lower_ext :: "string \<Rightarrow> string" where
  "lower_ext filePath = toLowerCase (path_extname filePath)"

text \<open>The \<^verbatim>\<open>outputPath\<close> and the local \<^verbatim>\<open>outputDir\<close> of \<^verbatim>\<open>processFile\<close>.\<close>

definition output_path :: "config \<Rightarrow> string \<Rightarrow> string" where
  "output_path cfg relativePath = path_join (outputDir cfg) relativePath"

definition output_dir :: "config \<Rightarrow> string \<Rightarrow> string" where
  "output_dir cfg relativePath = path_dirname (path_join (outputDir cfg) relativePath)"

text \<open>
  The \<^verbatim>\<open>outputFileName\<close> and the \<^verbatim>\<open>finalOutputPath\<close> of the JavaScript branch, for a
  file processed in state \<open>st\<close>.
\<close>

definition js_output_name :: "config \<Rightarrow> env \<Rightarrow> state \<Rightarrow> string \<Rightarrow> string" where
  "js_output_name cfg e st filePath =
     (if obfuscateFilenames cfg
      then generateObfuscatedName e (date_now e (clock st)) (path_basename filePath)
      else path_basename filePath)"

definition js_output_path :: "config \<Rightarrow> env \<Rightarrow> state \<Rightarrow> string \<Rightarrow> string \<Rightarrow> string" where
  "js_output_path cfg e st filePath relativePath =
     path_join (output_dir cfg relativePath) (js_output_name cfg e st filePath)"

text \<open>The code the JavaScript branch carries on with after the minification step.\<close>

definition js_body :: "config \<Rightarrow> env \<Rightarrow> string \<Rightarrow> string" where
  "js_body cfg e code =
     (if minify cfg then (case terser e code of Some result \<Rightarrow> result | None \<Rightarrow> code) else code)"

text \<open>The text of the regular file at a path of the write side, if there is one.\<close>

definition written :: "state \<Rightarrow> string \<Rightarrow> string option" where
  "written st p =
     (case out st (path_segments p) of
        Some (FileEntry content) \<Rightarrow> Some content
      | Some DirEntry \<Rightarrow> None
      | None \<Rightarrow> None)"


section \<open>Example inputs\<close>

text \<open>
  The example trees list the entries of a directory sorted by name, the order in which
  \<^verbatim>\<open>readdirSync\<close> returns them.

  Libraries for the examples: both minifiers throw on every input, every digest is the
  same string, and the clock counts its calls.
\<close>

definition ex_env :: env where
  "ex_env =
     \<lparr> terser = (\<lambda>code. None),
       minifyHTML = (\<lambda>html. None),
       md5_hex = (\<lambda>s. ''0123456789abcdef0123456789abcdef''),
       date_now = (\<lambda>n. n) \<rparr>"

text \<open>
  A site with one script in a subdirectory and a page that refers to it. The page comes
  first in the listing, so the walker processes it before the script.
\<close>

definition ex_site :: fsnode where
  "ex_site =
     DirNode
       [(''index.html'', FileNode ''<script src=\"js/app.js\"></script>''),
        (''js'', DirNode [(''app.js'', FileNode ''console.log(1)'')])]"

text \<open>
  The same site with the script in \<^verbatim>\<open>assets\<close>: this directory comes before the page,
  so the script has its new name when the page is processed.
\<close>

definition ex_assets :: fsnode where
  "ex_assets =
     DirNode
       [(''assets'', DirNode [(''app.js'', FileNode ''console.log(1)'')]),
        (''index.html'', FileNode ''<script src=\"assets/app.js\"></script>'')]"

text \<open>A site with the script and the page side by side.\<close>

definition ex_flat :: fsnode where
  "ex_flat =
     DirNode
       [(''app.js'', FileNode ''console.log(1)''),
        (''index.html'', FileNode ''<script src=\"app.js\"></script>'')]"

text \<open>
  A project with a JSON file and a PDF file in \<^verbatim>\<open>data/llm\<close>, and a directory with a
  text file in it.
\<close>

definition ex_data :: fsnode where
  "ex_data =
     DirNode
       [(''data'', DirNode
          [(''llm'', DirNode
             [(''notes'', DirNode [(''readme.txt'', FileNode ''text'')]),
              (''x.json'', FileNode ''{}''),
              (''x.pdf'', FileNode ''%PDF'')])])]"




section \<open>Notions for the data stager\<close>

text \<open>
  The destination paths of the directories a call of \<^verbatim>\<open>copyDir\<close> visits: its own
  \<^verbatim>\<open>dest\<close>, then those of the calls it makes for the directories of its listing.
\<close>

fun copyDir_dests :: "string \<Rightarrow> (string \<times> fsnode) list \<Rightarrow> string list"
  and copyItems_dests :: "string \<Rightarrow> (string \<times> fsnode) list \<Rightarrow> string list" where
  "copyDir_dests dest items = dest # copyItems_dests dest items"
| "copyItems_dests dest [] = []"
| "copyItems_dests dest ((item, node) # items) =
     (case node of
        DirNode kids \<Rightarrow> copyDir_dests (path_join dest item) kids
      | FileNode content \<Rightarrow> [])
     @ copyItems_dests dest items"

text \<open>
  What the entries of a directory are in a file system: each name is a file name, no name
  occurs twice in a directory, and so on in the directories below.
\<close>

fun listing_ok :: "(string \<times> fsnode) list \<Rightarrow> bool" where
  "listing_ok [] = True"
| "listing_ok ((item, node) # items) =
     (entry_name item \<and> item \<notin> fst ` set items
      \<and> (case node of DirNode kids \<Rightarrow> listing_ok kids | FileNode content \<Rightarrow> True)
      \<and> listing_ok items)"

text \<open>Whether a listing has a file anywhere below it that \<^verbatim>\<open>copyDir\<close> copies.\<close>

fun has_json :: "(string \<times> fsnode) list \<Rightarrow> bool" where
  "has_json [] = False"
| "has_json ((item, node) # items) =
     ((case node of
         DirNode kids \<Rightarrow> has_json kids
       | FileNode content \<Rightarrow> toLowerCase (path_extname item) = ''.json'')
      \<or> has_json items)"


section \<open>Lemmas\<close>

subsection \<open>The CSS transform\<close>

lemma space_not_punct: "is_space c \<Longrightarrow> \<not> is_punct c"
  by (auto simp: is_space_def is_punct_def)

lemma strip_comments_id: "\<not> has_comment s \<Longrightarrow> strip_comments s = s"
  by (induction s) auto

lemma strip_comments_length_le: "length (strip_comments s) \<le> length s"
proof (induction s rule: strip_comments.induct)
  case 1
  show ?case by simp
next
  case (2 c cs)
  show ?case
  proof (cases "comment_at (c # cs)")
    case None
    with 2 show ?thesis by simp
  next
    case (Some r)
    with 2 have "length (strip_comments r) \<le> length r" by simp
    moreover have "length r < length (c # cs)" using Some by (rule comment_at_length)
    ultimately show ?thesis using Some by simp
  qed
qed

lemma strip_comments_length_less: "has_comment s \<Longrightarrow> length (strip_comments s) < length s"
proof (induction s rule: strip_comments.induct)
  case 1
  then show ?case by simp
next
  case (2 c cs)
  show ?case
  proof (cases "comment_at (c # cs)")
    case None
    with 2 show ?thesis by simp
  next
    case (Some r)
    have "length (strip_comments r) \<le> length r" by (rule strip_comments_length_le)
    moreover have "length r < length (c # cs)" using Some by (rule comment_at_length)
    ultimately show ?thesis using Some by simp
  qed
qed

lemma collapse_ws_length_le: "length (collapse_ws s) \<le> length s"
proof (induction s rule: collapse_ws.induct)
  case 1
  show ?case by simp
next
  case (2 c cs)
  have "length (dropWhile is_space cs) \<le> length cs" by (rule length_dropWhile_le)
  with 2 show ?case by auto
qed

lemma strip_punct_ws_blank:
  "dropWhile is_space (c # cs) = [] \<Longrightarrow> strip_punct_ws (c # cs) = c # strip_punct_ws cs"
  by (simp del: dropWhile.simps dropWhile_eq_Nil_conv)

lemma strip_punct_ws_hit:
  "dropWhile is_space (c # cs) = p # r \<Longrightarrow> is_punct p \<Longrightarrow>
   strip_punct_ws (c # cs) = p # strip_punct_ws (dropWhile is_space r)"
  by (simp del: dropWhile.simps)

lemma strip_punct_ws_miss:
  "dropWhile is_space (c # cs) = p # r \<Longrightarrow> \<not> is_punct p \<Longrightarrow>
   strip_punct_ws (c # cs) = c # strip_punct_ws cs"
  by (simp del: dropWhile.simps)

lemma strip_punct_ws_length_le: "length (strip_punct_ws s) \<le> length s"
proof (induction s rule: strip_punct_ws.induct)
  case 1
  show ?case by simp
next
  case (2 c cs)
  show ?case
  proof (cases "dropWhile is_space (c # cs)")
    case Nil
    have "length (strip_punct_ws cs) \<le> length cs" using 2 Nil by blast
    then show ?thesis
      unfolding strip_punct_ws_blank [OF Nil] by simp
  next
    case (Cons p r)
    show ?thesis
    proof (cases "is_punct p")
      case True
      have "length (dropWhile is_space r) < length (c # cs)"
        using Cons by (rule dropWhile_Cons_length)
      moreover have "length (strip_punct_ws (dropWhile is_space r)) \<le> length (dropWhile is_space r)"
        using 2 Cons True by blast
      ultimately show ?thesis
        unfolding strip_punct_ws_hit [OF Cons True] by simp
    next
      case False
      have "length (strip_punct_ws cs) \<le> length cs" using 2 Cons False by blast
      then show ?thesis
        unfolding strip_punct_ws_miss [OF Cons False] by simp
    qed
  qed
qed

lemma trim_length_le: "length (trim s) \<le> length s"
proof -
  have "length (dropWhile is_space (rev (dropWhile is_space s))) \<le> length (rev (dropWhile is_space s))"
    by (rule length_dropWhile_le)
  also have "\<dots> \<le> length s" by (simp add: length_dropWhile_le)
  finally show ?thesis by (simp add: trim_def)
qed

lemma collapse_ws_head: "\<not> is_space x \<Longrightarrow> collapse_ws (x # t) = x # collapse_ws t"
  by simp

lemma dropWhile_head: "(case dropWhile P s of [] \<Rightarrow> True | b # _ \<Rightarrow> \<not> P b)"
  by (induction s) auto

lemma single_blanks_collapse: "single_blanks (collapse_ws s)"
proof (induction s rule: collapse_ws.induct)
  case 1
  show ?case by simp
next
  case (2 c cs)
  show ?case
  proof (cases "is_space c")
    case True
    have "case collapse_ws (dropWhile is_space cs) of [] \<Rightarrow> True | b # _ \<Rightarrow> \<not> is_space b"
      using dropWhile_head [of is_space cs]
      by (cases "dropWhile is_space cs") (auto simp del: dropWhile_eq_Nil_conv)
    with 2 True show ?thesis by simp
  next
    case False
    with 2 show ?thesis by simp
  qed
qed

declare strip_punct_ws.simps(2) [simp del]

lemma single_blanks_dropWhile: "single_blanks s \<Longrightarrow> single_blanks (dropWhile P s)"
  by (induction s) auto

lemma strip_punct_ws_head:
  assumes "\<not> is_space x"
  shows "\<exists>t'. strip_punct_ws (x # t) = x # t'"
proof -
  from assms have d: "dropWhile is_space (x # t) = x # t" by simp
  show ?thesis
  proof (cases "is_punct x")
    case True
    show ?thesis unfolding strip_punct_ws_hit [OF d True] by blast
  next
    case False
    show ?thesis unfolding strip_punct_ws_miss [OF d False] by blast
  qed
qed

lemma strip_punct_ws_head_case:
  "(case t of [] \<Rightarrow> True | b # _ \<Rightarrow> \<not> is_space b \<and> Q b) \<Longrightarrow>
   (case strip_punct_ws t of [] \<Rightarrow> True | b # _ \<Rightarrow> \<not> is_space b \<and> Q b)"
proof (cases t)
  case Nil
  then show ?thesis by simp
next
  case (Cons x t')
  assume "case t of [] \<Rightarrow> True | b # _ \<Rightarrow> \<not> is_space b \<and> Q b"
  with Cons have x: "\<not> is_space x" "Q x" by simp_all
  from strip_punct_ws_head [OF x(1)] obtain u where "strip_punct_ws (x # t') = x # u" ..
  with Cons x show ?thesis by simp
qed

lemma tidy_strip_punct_ws: "single_blanks s \<Longrightarrow> tidy (strip_punct_ws s)"
proof (induction s rule: strip_punct_ws.induct)
  case 1
  show ?case by simp
next
  case (2 c cs)
  from 2(4) have sb_cs: "single_blanks cs" by simp
  show ?case
  proof (cases "dropWhile is_space (c # cs)")
    case Nil
    then have all: "\<forall>x\<in>set (c # cs). is_space x"
      by (simp only: dropWhile_eq_Nil_conv)
    then have c: "is_space c" by simp
    have cs: "cs = []"
    proof (cases cs)
      case Nil
      then show ?thesis .
    next
      case (Cons b r)
      with all have "is_space b" by simp
      moreover from 2(4) c Cons have "\<not> is_space b" by simp
      ultimately show ?thesis by blast
    qed
    from 2(4) c have "c = CHR '' ''" by simp
    with cs c show ?thesis
      unfolding strip_punct_ws_blank [OF Nil] by simp
  next
    case (Cons p r)
    show ?thesis
    proof (cases "is_punct p")
      case True
      have "single_blanks (dropWhile is_space (c # cs))"
        using 2(4) by (rule single_blanks_dropWhile)
      then have "single_blanks r" using Cons by simp
      then have "single_blanks (dropWhile is_space r)" by (rule single_blanks_dropWhile)
      then have t: "tidy (strip_punct_ws (dropWhile is_space r))" using 2 Cons True by blast
      have "case dropWhile is_space r of [] \<Rightarrow> True | b # _ \<Rightarrow> \<not> is_space b \<and> True"
        using dropWhile_head [of is_space r] by (simp only: simp_thms)
      then have "case strip_punct_ws (dropWhile is_space r) of [] \<Rightarrow> True | b # _ \<Rightarrow> \<not> is_space b \<and> True"
        by (rule strip_punct_ws_head_case)
      then have h: "case strip_punct_ws (dropWhile is_space r) of [] \<Rightarrow> True | b # _ \<Rightarrow> \<not> is_space b"
        by (simp only: simp_thms)
      have nsp: "\<not> is_space p" using True space_not_punct by blast
      show ?thesis
        unfolding strip_punct_ws_hit [OF Cons True] tidy.simps
        using t nsp h by blast
    next
      case False
      have t: "tidy (strip_punct_ws cs)" using 2 Cons False sb_cs by blast
      show ?thesis
      proof (cases "is_space c")
        case sp: True
        with 2(4) have c: "c = CHR '' ''" and hd: "case cs of [] \<Rightarrow> True | b # _ \<Rightarrow> \<not> is_space b"
          by simp_all
        from Cons sp hd have "cs = p # r" by (auto split: list.splits)
        with hd False have "case cs of [] \<Rightarrow> True | b # _ \<Rightarrow> \<not> is_space b \<and> \<not> is_punct b"
          by simp
        then have "case strip_punct_ws cs of [] \<Rightarrow> True | b # _ \<Rightarrow> \<not> is_space b \<and> \<not> is_punct b"
          by (rule strip_punct_ws_head_case)
        then have h: "case strip_punct_ws cs of [] \<Rightarrow> True | b # _ \<Rightarrow> \<not> is_space b \<and> \<not> is_punct b" .
        have np: "\<not> is_punct c" using sp space_not_punct by blast
        show ?thesis
          unfolding strip_punct_ws_miss [OF Cons False] tidy.simps
          using t c np h by blast
      next
        case nsp: False
        with Cons have "p = c" by simp
        with False nsp t show ?thesis
          unfolding strip_punct_ws_miss [OF Cons False] by simp
      qed
    qed
  qed
qed

lemma tidy_append: "tidy (xs @ ys) \<Longrightarrow> tidy xs \<and> tidy ys"
proof (induction xs)
  case Nil
  then show ?case by simp
next
  case (Cons a xs)
  then show ?case by (cases xs) (auto split: list.splits)
qed

lemma tidy_dropWhile: "tidy s \<Longrightarrow> tidy (dropWhile P s)"
  using tidy_append [of "takeWhile P s" "dropWhile P s"] by simp

lemma drop_trailing_prefix: "rev (dropWhile P (rev s)) @ rev (takeWhile P (rev s)) = s"
proof -
  have "rev (takeWhile P (rev s) @ dropWhile P (rev s)) = s" by simp
  then show ?thesis by (simp only: rev_append)
qed

lemma tidy_trim: "tidy s \<Longrightarrow> tidy (trim s)"
proof -
  assume "tidy s"
  then have "tidy (dropWhile is_space s)" by (rule tidy_dropWhile)
  then have "tidy (rev (dropWhile is_space (rev (dropWhile is_space s)))
                   @ rev (takeWhile is_space (rev (dropWhile is_space s))))"
    by (simp only: drop_trailing_prefix)
  then show ?thesis unfolding trim_def by (blast dest: tidy_append)
qed

lemma tidy_collapse_ws: "tidy s \<Longrightarrow> collapse_ws s = s"
proof (induction s)
  case Nil
  show ?case by simp
next
  case (Cons a s)
  then show ?case by (cases s) auto
qed

lemma tidy_strip_punct_ws_id: "tidy s \<Longrightarrow> strip_punct_ws s = s"
proof (induction s)
  case Nil
  show ?case by simp
next
  case (Cons a s)
  from Cons.prems have ts: "tidy s" by simp
  then have ih: "strip_punct_ws s = s" by (rule Cons.IH)
  show ?case
  proof (cases "is_space a")
    case True
    show ?thesis
    proof (cases s)
      case Nil
      with True have "dropWhile is_space (a # s) = []" by simp
      from strip_punct_ws_blank [OF this] ih show ?thesis by simp
    next
      case (Cons b r)
      with True Cons.prems have b: "\<not> is_space b" "\<not> is_punct b" by simp_all
      with True Cons have "dropWhile is_space (a # s) = b # r" by simp
      from strip_punct_ws_miss [OF this b(2)] ih show ?thesis by simp
    qed
  next
    case False
    then have d: "dropWhile is_space (a # s) = a # s" by simp
    show ?thesis
    proof (cases "is_punct a")
      case True
      with Cons.prems have "case s of [] \<Rightarrow> True | b # _ \<Rightarrow> \<not> is_space b" by simp
      then have "dropWhile is_space s = s" by (cases s) auto
      with strip_punct_ws_hit [OF d True] ih show ?thesis by simp
    next
      case nP: False
      from strip_punct_ws_miss [OF d nP] ih show ?thesis by simp
    qed
  qed
qed

lemma dropWhile_id: "(case s of [] \<Rightarrow> True | b # _ \<Rightarrow> \<not> P b) \<Longrightarrow> dropWhile P s = s"
  by (cases s) auto

lemma trim_trim: "trim (trim s) = trim s"
proof -
  define t1 where "t1 = dropWhile is_space s"
  define t2 where "t2 = rev (dropWhile is_space (rev t1))"
  have t1: "case t1 of [] \<Rightarrow> True | b # _ \<Rightarrow> \<not> is_space b"
    unfolding t1_def by (rule dropWhile_head)
  have "t2 @ rev (takeWhile is_space (rev t1)) = t1"
    unfolding t2_def by (rule drop_trailing_prefix)
  with t1 have "case t2 of [] \<Rightarrow> True | b # _ \<Rightarrow> \<not> is_space b"
    by (cases t2) (auto split: list.splits)
  then have a: "dropWhile is_space t2 = t2" by (rule dropWhile_id)
  have "case dropWhile is_space (rev t1) of [] \<Rightarrow> True | b # _ \<Rightarrow> \<not> is_space b"
    by (rule dropWhile_head)
  then have "dropWhile is_space (dropWhile is_space (rev t1)) = dropWhile is_space (rev t1)"
    by (rule dropWhile_id)
  then have b: "rev (dropWhile is_space (rev t2)) = t2"
    unfolding t2_def by simp
  have "trim s = t2" by (simp add: trim_def t1_def t2_def)
  moreover have "trim t2 = t2" using a b by (simp add: trim_def)
  ultimately show ?thesis by simp
qed

lemma tidy_css_minify: "tidy (css_minify s)"
  unfolding css_minify_def
  by (intro tidy_trim tidy_strip_punct_ws single_blanks_collapse)

subsection \<open>Paths built from entry names\<close>

lemma split_sep_not_Nil: "split_sep s \<noteq> []"
  by (induction s) (auto split: list.splits)

lemma split_sep_plain: "CHR ''/'' \<notin> set s \<Longrightarrow> split_sep s = [s]"
  by (induction s) auto

lemma split_sep_append:
  "CHR ''/'' \<notin> set s \<Longrightarrow> split_sep (s @ CHR ''/'' # r) = s # split_sep r"
  by (induction s) auto

lemma split_sep_join_sep:
  "xs \<noteq> [] \<Longrightarrow> \<forall>x\<in>set xs. CHR ''/'' \<notin> set x \<Longrightarrow> split_sep (join_sep xs) = xs"
proof (induction xs rule: join_sep.induct)
  case 1
  then show ?case by simp
next
  case (2 s)
  then show ?case by (simp add: split_sep_plain)
next
  case (3 s t ss)
  then show ?case by (simp add: split_sep_append)
qed

lemma norm_segs_names:
  "\<forall>x\<in>set xs. entry_name x \<Longrightarrow> norm_segs acc xs = rev acc @ xs"
  by (induction xs arbitrary: acc) (auto simp: entry_name_def)

lemma path_segments_join_sep:
  assumes "xs \<noteq> []" and "\<forall>x\<in>set xs. entry_name x"
  shows "path_segments (join_sep xs) = xs"
proof -
  from assms(2) have "\<forall>x\<in>set xs. CHR ''/'' \<notin> set x" by (simp add: entry_name_def)
  with assms(1) have "split_sep (join_sep xs) = xs" by (rule split_sep_join_sep)
  with assms(2) show ?thesis by (simp add: path_segments_def norm_segs_names)
qed

lemma join_sep_last:
  "xs \<noteq> [] \<Longrightarrow> \<exists>pre. join_sep xs = pre @ last xs \<and> (pre = [] \<or> last pre = CHR ''/'')"
proof (induction xs rule: join_sep.induct)
  case 1
  then show ?case by simp
next
  case (2 s)
  then show ?case by simp
next
  case (3 s t ss)
  then obtain pre where pre: "join_sep (t # ss) = pre @ last (t # ss)" by auto
  have "join_sep (s # t # ss) = (s @ ''/'' @ pre) @ last (s # t # ss)"
    using pre by simp
  moreover have "last (s @ ''/'' @ pre) = CHR ''/''"
    using 3 pre by (cases "pre = []") auto
  ultimately show ?case by blast
qed

lemma path_basename_join_sep:
  assumes "xs \<noteq> []" and "CHR ''/'' \<notin> set (last xs)"
  shows "path_basename (join_sep xs) = last xs"
proof -
  from join_sep_last [OF assms(1)] obtain pre
    where j: "join_sep xs = pre @ last xs" and p: "pre = [] \<or> last pre = CHR ''/''" by blast
  have nosep: "\<forall>c\<in>set (rev (last xs)). c \<noteq> CHR ''/''"
    using assms(2) by auto
  have "takeWhile (\<lambda>c. c \<noteq> CHR ''/'') (rev (last xs) @ rev pre) = rev (last xs)"
  proof (cases "pre = []")
    case True
    with nosep show ?thesis by simp
  next
    case False
    with p have "hd (rev pre) = CHR ''/''" by (simp add: hd_rev)
    moreover from False have "rev pre \<noteq> []" by simp
    ultimately have "takeWhile (\<lambda>c. c \<noteq> CHR ''/'') (rev pre) = []"
      by (cases "rev pre") auto
    moreover have "takeWhile (\<lambda>c. c \<noteq> CHR ''/'') (rev (last xs) @ rev pre)
                   = rev (last xs) @ takeWhile (\<lambda>c. c \<noteq> CHR ''/'') (rev pre)"
      using nosep by (intro takeWhile_append2) blast
    ultimately show ?thesis by simp
  qed
  then show ?thesis by (simp add: path_basename_def j)
qed

lemma longest_common_prefix_append: "longest_common_prefix xs (xs @ ys) = xs"
  by (induction xs) auto

lemma path_relative_below:
  assumes "path_segments from = root" and "comps \<noteq> []"
    and "\<forall>x\<in>set (root @ comps). entry_name x"
  shows "path_relative from (join_sep (root @ comps)) = join_sep comps"
proof -
  from assms(2) have "root @ comps \<noteq> []" by simp
  then have "path_segments (join_sep (root @ comps)) = root @ comps"
    using assms(3) by (rule path_segments_join_sep)
  with assms(1) show ?thesis
    by (simp add: path_relative_def longest_common_prefix_append)
qed

subsection \<open>The branches of processFile\<close>

lemma writeFileSync_writable:
  "writable fs p \<Longrightarrow> writeFileSync fs p content = Inr (fs(path_segments p \<mapsto> FileEntry content))"
  by (auto simp: writable_def writeFileSync_def Let_def)

lemma writeFileSync_Inr:
  "writeFileSync fs p content = Inr fs' \<Longrightarrow>
   writable fs p \<and> fs' = fs(path_segments p \<mapsto> FileEntry content)"
  by (auto simp: writable_def writeFileSync_def Let_def split: if_splits)

lemma written_update:
  "written (st\<lparr> out := o'(path_segments p \<mapsto> FileEntry content) \<rparr>) p = Some content"
  by (simp add: written_def)

lemma processFile_js_eq:
  assumes ext: "lower_ext filePath = ''.js''"
    and rd: "readFileSync src filePath = Inr code"
    and dir: "ensure_dir (out st) (output_dir cfg relativePath) = Inr out1"
    and wr: "writable out1 (js_output_path cfg e st filePath relativePath)"
  shows "processFile cfg e src filePath relativePath st =
         Inr \<lparr> out = out1(path_segments (js_output_path cfg e st filePath relativePath)
                         \<mapsto> FileEntry (getAntiTamperCode cfg @ js_body cfg e code)),
               fileMapping =
                 (if obfuscateFilenames cfg
                  then AList.update (path_basename filePath) (js_output_name cfg e st filePath)
                         (fileMapping st)
                  else fileMapping st),
               console = console st
                 @ (if minify cfg \<and> terser e code = None
                    then [Warn_minify (path_basename filePath)] else [])
                 @ [Log_processed relativePath
                      (if obfuscateFilenames cfg then Some (js_output_name cfg e st filePath)
                       else None)],
               clock = (if obfuscateFilenames cfg then Suc (clock st) else clock st) \<rparr>"
proof -
  have w: "\<And>content. writeFileSync out1 (js_output_path cfg e st filePath relativePath) content
           = Inr (out1(path_segments (js_output_path cfg e st filePath relativePath)
                   \<mapsto> FileEntry content))"
    using wr by (rule writeFileSync_writable)
  have ext': "toLowerCase (path_extname filePath) = ''.js''"
    using ext by (simp add: lower_ext_def)
  have dir': "ensure_dir (out st) (path_dirname (path_join (outputDir cfg) relativePath)) = Inr out1"
    using dir by (simp add: output_dir_def)
  have guard: "(if getAntiTamperCode cfg \<noteq> [] then getAntiTamperCode cfg @ body else body)
               = getAntiTamperCode cfg @ body" for body
    by simp
  show ?thesis
  proof (cases "obfuscateFilenames cfg")
    case True
    with w have w': "\<And>content. writeFileSync out1
        (path_join (path_dirname (path_join (outputDir cfg) relativePath))
           (generateObfuscatedName e (date_now e (clock st)) (path_basename filePath))) content
        = Inr (out1(path_segments (js_output_path cfg e st filePath relativePath)
                \<mapsto> FileEntry content))"
      by (simp add: js_output_path_def output_dir_def js_output_name_def)
    show ?thesis
      unfolding processFile_def processFile_js_def Let_def guard
      using True ext' dir' rd
      by (simp add: w' js_output_name_def js_body_def)
  next
    case False
    with w have w': "\<And>content. writeFileSync out1
        (path_join (path_dirname (path_join (outputDir cfg) relativePath))
           (path_basename filePath)) content
        = Inr (out1(path_segments (js_output_path cfg e st filePath relativePath)
                \<mapsto> FileEntry content))"
      by (simp add: js_output_path_def output_dir_def js_output_name_def)
    show ?thesis
      unfolding processFile_def processFile_js_def Let_def guard
      using False ext' dir' rd
      by (simp add: w' js_output_name_def js_body_def)
  qed
qed

lemma processFile_html_eq:
  assumes ext: "lower_ext filePath = ''.html'' \<or> lower_ext filePath = ''.htm''"
    and rd: "readFileSync src filePath = Inr html"
    and refs: "(if obfuscateFilenames cfg then update_refs (fileMapping st) html else Inr html)
               = Inr html'"
    and dir: "ensure_dir (out st) (output_dir cfg relativePath) = Inr out1"
    and wr: "writable out1 (output_path cfg relativePath)"
  shows "processFile cfg e src filePath relativePath st =
         Inr (st\<lparr> out := out1(path_segments (output_path cfg relativePath)
                          \<mapsto> FileEntry (if minify cfg
                                           then (case minifyHTML e html' of
                                                   Some result \<Rightarrow> result | None \<Rightarrow> html')
                                           else html')),
                  console := console st
                    @ (if minify cfg \<and> minifyHTML e html' = None
                       then [Warn_minify (path_basename filePath)] else [])
                    @ [Log_processed relativePath None] \<rparr>)"
proof -
  have ext': "toLowerCase (path_extname filePath) \<noteq> ''.js''"
    "toLowerCase (path_extname filePath) = ''.html'' \<or> toLowerCase (path_extname filePath) = ''.htm''"
    using ext by (auto simp: lower_ext_def)
  have dir': "ensure_dir (out st) (path_dirname (path_join (outputDir cfg) relativePath)) = Inr out1"
    using dir by (simp add: output_dir_def)
  have w: "\<And>content. writeFileSync out1 (path_join (outputDir cfg) relativePath) content
           = Inr (out1(path_segments (output_path cfg relativePath) \<mapsto> FileEntry content))"
    using writeFileSync_writable [OF wr] by (simp add: output_path_def)
  show ?thesis
  proof (cases "obfuscateFilenames cfg")
    case True
    with refs have r: "update_refs (fileMapping st) html = Inr html'" by simp
    show ?thesis
      unfolding processFile_def processFile_html_def Let_def
      using True ext' dir' rd r by (simp add: w)
  next
    case False
    with refs have r: "html' = html" by simp
    show ?thesis
      unfolding r processFile_def processFile_html_def Let_def
      using False ext' dir' rd by (simp add: w)
  qed
qed

lemma processFile_css_eq:
  assumes ext: "lower_ext filePath = ''.css''"
    and min: "minify cfg"
    and rd: "readFileSync src filePath = Inr css"
    and dir: "ensure_dir (out st) (output_dir cfg relativePath) = Inr out1"
    and wr: "writable out1 (output_path cfg relativePath)"
  shows "processFile cfg e src filePath relativePath st =
         Inr (st\<lparr> out := out1(path_segments (output_path cfg relativePath)
                          \<mapsto> FileEntry (css_minify css)),
                  console := console st @ [Log_processed relativePath None] \<rparr>)"
proof -
  have ext': "toLowerCase (path_extname filePath) = ''.css''"
    using ext by (simp add: lower_ext_def)
  have dir': "ensure_dir (out st) (path_dirname (path_join (outputDir cfg) relativePath)) = Inr out1"
    using dir by (simp add: output_dir_def)
  have w: "\<And>content. writeFileSync out1 (path_join (outputDir cfg) relativePath) content
           = Inr (out1(path_segments (output_path cfg relativePath) \<mapsto> FileEntry content))"
    using writeFileSync_writable [OF wr] by (simp add: output_path_def)
  show ?thesis
    unfolding processFile_def processFile_css_def Let_def
    using ext' min dir' rd by (simp add: w)
qed

lemma processFile_copy_eq:
  assumes ext: "lower_ext filePath \<noteq> ''.js''" "lower_ext filePath \<noteq> ''.html''"
      "lower_ext filePath \<noteq> ''.htm''" "lower_ext filePath \<noteq> ''.css'' \<or> \<not> minify cfg"
    and rd: "readFileSync src filePath = Inr content"
    and dir: "ensure_dir (out st) (output_dir cfg relativePath) = Inr out1"
    and wr: "writable out1 (output_path cfg relativePath)"
  shows "processFile cfg e src filePath relativePath st =
         Inr (st\<lparr> out := out1(path_segments (output_path cfg relativePath)
                          \<mapsto> FileEntry content),
                  console := console st @ [Log_copied relativePath] \<rparr>)"
proof -
  have ext': "toLowerCase (path_extname filePath) \<noteq> ''.js''"
    "toLowerCase (path_extname filePath) \<noteq> ''.html''"
    "toLowerCase (path_extname filePath) \<noteq> ''.htm''"
    "toLowerCase (path_extname filePath) \<noteq> ''.css'' \<or> \<not> minify cfg"
    using ext by (simp_all add: lower_ext_def)
  have dir': "ensure_dir (out st) (path_dirname (path_join (outputDir cfg) relativePath)) = Inr out1"
    using dir by (simp add: output_dir_def)
  have w: "\<And>content. writeFileSync out1 (path_join (outputDir cfg) relativePath) content
           = Inr (out1(path_segments (output_path cfg relativePath) \<mapsto> FileEntry content))"
    using writeFileSync_writable [OF wr] by (simp add: output_path_def)
  have "processFile cfg e src filePath relativePath st =
        processFile_copy src filePath relativePath (path_join (outputDir cfg) relativePath)
          (st\<lparr> out := out1 \<rparr>)"
    unfolding processFile_def Let_def using ext' dir' by auto
  also have "\<dots> = Inr (st\<lparr> out := out1(path_segments (output_path cfg relativePath)
                                  \<mapsto> FileEntry content),
                           console := console st @ [Log_copied relativePath] \<rparr>)"
    unfolding processFile_copy_def copyFileSync_def using rd by (simp add: w)
  finally show ?thesis .
qed

subsection \<open>The JSON text of a string\<close>

lemma json_escape_plain:
  assumes "c \<noteq> CHR 0x22" and "c \<noteq> CHR 0x5C" and "32 \<le> (of_char c :: nat)"
  shows "json_escape c = [c]"
proof -
  from assms(3) have "c \<noteq> CHR 0x08" and "c \<noteq> CHR 0x0C" and "c \<noteq> CHR 0x0A"
    and "c \<noteq> CHR 0x0D" and "c \<noteq> CHR 0x09"
    by auto
  with assms show ?thesis by (simp add: json_escape_def)
qed

lemma json_escape_plain_text:
  "\<forall>c\<in>set s. c \<noteq> CHR 0x22 \<and> c \<noteq> CHR 0x5C \<and> 32 \<le> (of_char c :: nat) \<Longrightarrow>
   concat (map json_escape s) = s"
  by (induction s) (simp_all add: json_escape_plain)

subsection \<open>The file name mapping\<close>









subsection \<open>The data stager\<close>

lemma split_sep_app: "split_sep (a @ CHR ''/'' # b) = split_sep a @ split_sep b"
proof (induction a)
  case Nil
  show ?case by simp
next
  case (Cons c a)
  obtain x xs where s: "split_sep a = x # xs"
    using split_sep_not_Nil [of a] by (cases "split_sep a") auto
  with Cons show ?case by simp
qed

lemma norm_segs_append: "norm_segs acc (xs @ ys) = norm_segs (rev (norm_segs acc xs)) ys"
  by (induction xs arbitrary: acc) (auto split: list.splits)

lemma path_segments_path_join:
  assumes "path_segments dest = ds" and "ds \<noteq> []" and "\<forall>s\<in>set ds. entry_name s"
    and "entry_name item"
  shows "path_segments (path_join dest item) = ds @ [item]"
proof -
  from assms(1,2) have d: "dest \<noteq> []" by (auto simp: path_segments_def)
  from assms(4) have i: "item \<noteq> []" and plain: "CHR ''/'' \<notin> set item"
    by (simp_all add: entry_name_def)
  have "path_segments (dest @ path_sep @ item) = norm_segs (rev ds) (split_sep item)"
    using assms(1) by (simp add: path_segments_def path_sep_def split_sep_app norm_segs_append)
  also have "\<dots> = ds @ [item]"
    using assms(4) plain by (simp add: split_sep_plain entry_name_def)
  finally have raw: "path_segments (dest @ path_sep @ item) = ds @ [item]" .
  have "path_join dest item = join_sep (ds @ [item])"
    using d i raw by (simp add: path_join_def path_normalize_def split: list.splits)
  moreover have "path_segments (join_sep (ds @ [item])) = ds @ [item]"
    using assms(3,4) by (intro path_segments_join_sep) auto
  ultimately show ?thesis by simp
qed

lemma mkdirs_Inr:
  "mkdirs fs qs = Inr fs' \<Longrightarrow>
   (\<forall>q\<in>set qs. fs' q = Some DirEntry)
   \<and> (\<forall>q. fs' q = fs q \<or> (fs q = None \<and> fs' q = Some DirEntry))"
proof (induction qs arbitrary: fs)
  case Nil
  then show ?case by simp
next
  case (Cons p qs)
  show ?case
  proof (cases "fs p")
    case None
    with Cons.prems have run: "mkdirs (fs(p \<mapsto> DirEntry)) qs = Inr fs'" by simp
    from Cons.IH [OF run]
    have a: "\<forall>q\<in>set qs. fs' q = Some DirEntry"
      and b: "\<forall>q. fs' q = (fs(p \<mapsto> DirEntry)) q
                 \<or> ((fs(p \<mapsto> DirEntry)) q = None \<and> fs' q = Some DirEntry)"
      by blast+
    from b have p: "fs' p = Some DirEntry" by (metis fun_upd_same option.distinct(1))
    have "\<forall>q. fs' q = fs q \<or> (fs q = None \<and> fs' q = Some DirEntry)"
    proof
      fix q
      show "fs' q = fs q \<or> (fs q = None \<and> fs' q = Some DirEntry)"
      proof (cases "q = p")
        case True
        with p None show ?thesis by simp
      next
        case False
        with b [rule_format, of q] show ?thesis by simp
      qed
    qed
    with a p show ?thesis by simp
  next
    case (Some en)
    show ?thesis
    proof (cases en)
      case (FileEntry c)
      with Some Cons.prems show ?thesis by simp
    next
      case DirEntry
      with Some Cons.prems have run: "mkdirs fs qs = Inr fs'" by simp
      from Cons.IH [OF run]
      have a: "\<forall>q\<in>set qs. fs' q = Some DirEntry"
        and b: "\<forall>q. fs' q = fs q \<or> (fs q = None \<and> fs' q = Some DirEntry)"
        by blast+
      from b [rule_format, of p] Some DirEntry have "fs' p = Some DirEntry" by simp
      with a b show ?thesis by simp
    qed
  qed
qed

lemma ensure_dir_adds_dirs:
  "ensure_dir fs dest = Inr fs' \<Longrightarrow> fs' q = fs q \<or> (fs q = None \<and> fs' q = Some DirEntry)"
  using mkdirs_Inr [of fs "tl (prefixes (path_segments dest))" fs']
  by (auto simp: ensure_dir_def mkdirSync_def split: if_splits)


lemma copyFileSync_Inr:
  "copyFileSync root fs from to = Inr fs' \<Longrightarrow>
   \<exists>content. fs' = fs(path_segments to \<mapsto> FileEntry content) \<and> fs (path_segments to) \<noteq> Some DirEntry"
  by (auto simp: copyFileSync_def writable_def dest!: writeFileSync_Inr split: sum.splits)

text \<open>The ways a call and one round of its loop return.\<close>

lemma copyDir_Inr:
  assumes "copyDir root srcDir items dest st = Inr st'"
  obtains out1 where "ensure_dir (out st) dest = Inr out1"
    and "copyItems root srcDir items dest (st\<lparr> out := out1 \<rparr>) = Inr st'"
  using assms by (cases "ensure_dir (out st) dest") auto

lemma copyItems_Inr:
  assumes "copyItems root srcDir ((item, node) # items) dest st = Inr st'"
  obtains st1 where
    "(case node of
        FileNode content \<Rightarrow>
          if toLowerCase (path_extname item) = ''.json''
          then case copyFileSync root (out st) (path_join srcDir item) (path_join dest item) of
                 Inl err \<Rightarrow> Inl err
               | Inr out' \<Rightarrow>
                   Inr (st\<lparr>out := out',
                            console := console st @
                              [Log_copied (path_relative ''.'' (path_join srcDir item))]\<rparr>)
          else Inr st
      | DirNode kids \<Rightarrow> copyDir root (path_join srcDir item) kids (path_join dest item) st)
     = Inr st1"
    and "copyItems root srcDir items dest st1 = Inr st'"
  using assms by (auto simp: Let_def split: sum.splits)

lemma copy_step_cases:
  assumes "(case node of
        FileNode content \<Rightarrow>
          if toLowerCase (path_extname item) = ''.json''
          then case copyFileSync root (out st) srcPath destPath of
                 Inl err \<Rightarrow> Inl err
               | Inr out' \<Rightarrow>
                   Inr (st\<lparr>out := out',
                            console := console st @ [Log_copied (path_relative ''.'' srcPath)]\<rparr>)
          else Inr st
      | DirNode kids \<Rightarrow> copyDir root srcPath kids destPath st)
     = Inr st1"
  obtains
    (dir) kids where "node = DirNode kids" and "copyDir root srcPath kids destPath st = Inr st1"
  | (json) content body where "node = FileNode content"
      and "toLowerCase (path_extname item) = ''.json''"
      and "out st (path_segments destPath) \<noteq> Some DirEntry"
      and "st1 = st\<lparr>out := (out st)(path_segments destPath \<mapsto> FileEntry body),
                     console := console st @ [Log_copied (path_relative ''.'' srcPath)]\<rparr>"
  | (other) content where "node = FileNode content"
      and "toLowerCase (path_extname item) \<noteq> ''.json''" and "st1 = st"
proof (cases node)
  case (DirNode kids)
  with assms that(1) show ?thesis by simp
next
  case (FileNode content)
  show ?thesis
  proof (cases "toLowerCase (path_extname item) = ''.json''")
    case False
    with FileNode assms that(3) show ?thesis by simp
  next
    case True
    show ?thesis
    proof (cases "copyFileSync root (out st) srcPath destPath")
      case (Inl err)
      with FileNode True assms show ?thesis by simp
    next
      case (Inr out1)
      from copyFileSync_Inr [OF Inr] obtain body where
        o: "out1 = (out st)(path_segments destPath \<mapsto> FileEntry body)"
        and d: "out st (path_segments destPath) \<noteq> Some DirEntry" by blast
      from FileNode True assms Inr o
      have "st1 = st\<lparr>out := (out st)(path_segments destPath \<mapsto> FileEntry body),
                     console := console st @ [Log_copied (path_relative ''.'' srcPath)]\<rparr>"
        by simp
      with FileNode True d that(2) show ?thesis by blast
    qed
  qed
qed

text \<open>
  What a call changes on the write side: it makes directories where there was nothing, and
  it writes regular files where there was no directory, the latter only when the listing
  has a JSON file; without one it prints nothing.
\<close>

lemma copyDir_changes:
  "copyDir root srcDir items dest st = Inr st' \<Longrightarrow>
   (out st' q = out st q
    \<or> (out st q = None \<and> out st' q = Some DirEntry)
    \<or> (out st q \<noteq> Some DirEntry \<and> (\<exists>c. out st' q = Some (FileEntry c)) \<and> has_json items))
   \<and> (\<not> has_json items \<longrightarrow> console st' = console st)"
  and copyItems_changes:
  "copyItems root srcDir items dest st = Inr st' \<Longrightarrow>
   (out st' q = out st q
    \<or> (out st q = None \<and> out st' q = Some DirEntry)
    \<or> (out st q \<noteq> Some DirEntry \<and> (\<exists>c. out st' q = Some (FileEntry c)) \<and> has_json items))
   \<and> (\<not> has_json items \<longrightarrow> console st' = console st)"
proof (induction root srcDir items dest st and root srcDir items dest st
       arbitrary: st' and st' rule: copyDir_copyItems.induct)
  case (1 root srcDir items dest st)
  from "1.prems" obtain out1 where e: "ensure_dir (out st) dest = Inr out1"
    and r: "copyItems root srcDir items dest (st\<lparr> out := out1 \<rparr>) = Inr st'"
    by (rule copyDir_Inr)
  from ensure_dir_adds_dirs [OF e, of q]
  have a: "out1 q = out st q \<or> (out st q = None \<and> out1 q = Some DirEntry)" .
  from "1.IH" [OF e r]
  have b: "out st' q = out1 q
           \<or> (out1 q = None \<and> out st' q = Some DirEntry)
           \<or> (out1 q \<noteq> Some DirEntry \<and> (\<exists>c. out st' q = Some (FileEntry c)) \<and> has_json items)"
    and c: "\<not> has_json items \<longrightarrow> console st' = console st"
    by simp_all
  from a b have "out st' q = out st q
    \<or> (out st q = None \<and> out st' q = Some DirEntry)
    \<or> (out st q \<noteq> Some DirEntry \<and> (\<exists>c. out st' q = Some (FileEntry c)) \<and> has_json items)"
    by auto
  with c show ?case by blast
next
  case (2 root srcDir dest st)
  then show ?case by simp
next
  case (3 root srcDir item node items dest st)
  from "3.prems" obtain st1 where
    step: "(case node of
        FileNode content \<Rightarrow>
          if toLowerCase (path_extname item) = ''.json''
          then case copyFileSync root (out st) (path_join srcDir item) (path_join dest item) of
                 Inl err \<Rightarrow> Inl err
               | Inr out' \<Rightarrow>
                   Inr (st\<lparr>out := out',
                            console := console st @
                              [Log_copied (path_relative ''.'' (path_join srcDir item))]\<rparr>)
          else Inr st
      | DirNode kids \<Rightarrow> copyDir root (path_join srcDir item) kids (path_join dest item) st)
     = Inr st1"
    and rest: "copyItems root srcDir items dest st1 = Inr st'"
    by (rule copyItems_Inr)
  from "3.IH"(2) [OF refl refl step rest]
  have b1: "out st' q = out st1 q
         \<or> (out st1 q = None \<and> out st' q = Some DirEntry)
         \<or> (out st1 q \<noteq> Some DirEntry \<and> (\<exists>c. out st' q = Some (FileEntry c)) \<and> has_json items)"
    and b2: "\<not> has_json items \<longrightarrow> console st' = console st1"
    by simp_all
  from step show ?case
  proof (cases rule: copy_step_cases)
    case (dir kids)
    from "3.IH"(1) [OF refl refl dir]
    have a1: "out st1 q = out st q
           \<or> (out st q = None \<and> out st1 q = Some DirEntry)
           \<or> (out st q \<noteq> Some DirEntry \<and> (\<exists>c. out st1 q = Some (FileEntry c)) \<and> has_json kids)"
      and a2: "\<not> has_json kids \<longrightarrow> console st1 = console st"
      by simp_all
    have h: "has_json ((item, node) # items) = (has_json kids \<or> has_json items)"
      using dir(1) by simp
    from a1 b1 have "out st' q = out st q
      \<or> (out st q = None \<and> out st' q = Some DirEntry)
      \<or> (out st q \<noteq> Some DirEntry \<and> (\<exists>c. out st' q = Some (FileEntry c))
          \<and> (has_json kids \<or> has_json items))"
      by auto
    moreover from a2 b2 have "\<not> (has_json kids \<or> has_json items) \<longrightarrow> console st' = console st"
      by simp
    ultimately show ?thesis unfolding h by blast
  next
    case (json content body)
    have h: "has_json ((item, node) # items)" using json(1,2) by simp
    have a1: "out st1 q = out st q
           \<or> (out st q \<noteq> Some DirEntry \<and> (\<exists>c. out st1 q = Some (FileEntry c)))"
      using json(3,4) by (cases "q = path_segments (path_join dest item)") simp_all
    from a1 b1 have "out st' q = out st q
      \<or> (out st q = None \<and> out st' q = Some DirEntry)
      \<or> (out st q \<noteq> Some DirEntry \<and> (\<exists>c. out st' q = Some (FileEntry c)))"
      by auto
    with h show ?thesis by blast
  next
    case (other content)
    have h: "has_json ((item, node) # items) = has_json items" using other(1,2) by simp
    from b1 b2 other(3) show ?thesis unfolding h by simp
  qed
qed

lemma copyDir_keeps_dir:
  assumes "copyDir root srcDir items dest st = Inr st'" and "out st q = Some DirEntry"
  shows "out st' q = Some DirEntry"
  using copyDir_changes [OF assms(1), of q] assms(2) by auto


text \<open>Where the directories a call visits lie, and where it writes regular files.\<close>

lemma copyDir_dests_segments:
  "d \<in> set (copyDir_dests dest items) \<Longrightarrow> path_segments dest = ds \<Longrightarrow> ds \<noteq> [] \<Longrightarrow>
   \<forall>s\<in>set ds. entry_name s \<Longrightarrow> listing_ok items \<Longrightarrow>
   path_segments d = ds \<or> (\<exists>n rel. n \<in> fst ` set items \<and> path_segments d = ds @ n # rel)"
  and copyItems_dests_segments:
  "d \<in> set (copyItems_dests dest items) \<Longrightarrow> path_segments dest = ds \<Longrightarrow> ds \<noteq> [] \<Longrightarrow>
   \<forall>s\<in>set ds. entry_name s \<Longrightarrow> listing_ok items \<Longrightarrow>
   \<exists>n rel. n \<in> fst ` set items \<and> path_segments d = ds @ n # rel"
proof (induction dest items and dest items arbitrary: ds and ds
       rule: copyDir_dests_copyItems_dests.induct)
  case (1 dest items)
  show ?case
  proof (cases "d = dest")
    case True
    with "1.prems"(2) show ?thesis by simp
  next
    case False
    with "1.prems"(1) have "d \<in> set (copyItems_dests dest items)" by simp
    from "1.IH" [OF this "1.prems"(2-5)] show ?thesis by blast
  qed
next
  case (2 dest)
  then show ?case by simp
next
  case (3 dest item node items)
  from "3.prems"(5) have name: "entry_name item" and ok: "listing_ok items" by simp_all
  have seg: "path_segments (path_join dest item) = ds @ [item]"
    using "3.prems"(2-4) name by (rule path_segments_path_join)
  have ds': "ds @ [item] \<noteq> []" "\<forall>s\<in>set (ds @ [item]). entry_name s"
    using "3.prems"(4) name by simp_all
  show ?case
  proof (cases "d \<in> set (copyItems_dests dest items)")
    case True
    from "3.IH"(2) [OF True "3.prems"(2-4) ok] show ?thesis by auto
  next
    case False
    with "3.prems"(1) obtain kids where node: "node = DirNode kids"
      and d: "d \<in> set (copyDir_dests (path_join dest item) kids)"
      by (cases node) auto
    from "3.prems"(5) node have okk: "listing_ok kids" by simp
    from "3.IH"(1) [OF node d seg ds' okk]
    have "path_segments d = ds @ [item]
          \<or> (\<exists>n rel. n \<in> fst ` set kids \<and> path_segments d = (ds @ [item]) @ n # rel)" .
    then have "\<exists>rel. path_segments d = ds @ item # rel" by auto
    then show ?thesis by auto
  qed
qed



section \<open>The claims\<close>

subsection \<open>C1: what a rewritten script reference looks like\<close>

text \<open>
  C1 says that the part of a \<^verbatim>\<open>src\<close> value before the original file name is preserved.
  The pattern captures the whole value, \<^verbatim>\<open>([^"']*${originalName})\<close>, but the replacement
  \<^verbatim>\<open>src="${obfuscatedName}"\<close> does not use the group: the value becomes the bare new
  name. The JavaScript branch, however, writes the renamed script into the directory of
  the original (\<^verbatim>\<open>path.join(outputDir, outputFileName)\<close>), so a reference with a
  directory part points nowhere afterwards. In the build of \<open>ex_assets\<close> with file name
  obfuscation on, the walker comes to \<^verbatim>\<open>assets\<close> before \<^verbatim>\<open>index.html\<close>:
  \<^verbatim>\<open>assets/app.js\<close> is written to \<^verbatim>\<open>dist/assets/01234567.js\<close>, the page then refers to
  \<^verbatim>\<open>01234567.js\<close>, and there is no \<^verbatim>\<open>dist/01234567.js\<close>. (In \<open>ex_site\<close>, where the
  script directory comes after the page, the page is processed with an empty mapping and
  written as it is, while the script is renamed all the same.)
\<close>

theorem script_reference_loses_directory:
  "update_refs [(''app.js'', ''01234567.js'')] ''<script src=\"assets/app.js\"></script>''
     = Inr ''<script src=\"01234567.js\"></script>''
   \<and> (case build (shipped_config\<lparr> minify := False, obfuscateFilenames := True \<rparr>)
              ex_env ex_assets Map.empty of
        Inl err \<Rightarrow> None
      | Inr st \<Rightarrow>
          Some (fileMapping st, written st ''dist/assets/01234567.js'',
                written st ''dist/assets/app.js'', written st ''dist/01234567.js'',
                written st ''dist/index.html'', console st))
     = Some ([(''app.js'', ''01234567.js'')], Some ''console.log(1)'', None, None,
             Some ''<script src=\"01234567.js\"></script>'',
             [Log_building, Log_processed ''assets/app.js'' (Some ''01234567.js''),
              Log_processed ''index.html'' None, Log_no_data, Log_complete])
   \<and> (case build (shipped_config\<lparr> minify := False, obfuscateFilenames := True \<rparr>)
              ex_env ex_site Map.empty of
        Inl err \<Rightarrow> None
      | Inr st \<Rightarrow>
          Some (written st ''dist/js/01234567.js'', written st ''dist/js/app.js'',
                written st ''dist/index.html''))
     = Some (Some ''console.log(1)'', None, Some ''<script src=\"js/app.js\"></script>'')"
  by (simp add: build_def prepare_output_def processDirectory_def copyDataDirectory_def
        ex_assets_def ex_site_def ex_env_def shipped_config_def lower_ext_def
        processFile_def processFile_js_def processFile_html_def
        ensure_dir_def existsSync_def mkdirSync_def writeFileSync_def readFileSync_def rmSync_def
        shouldExclude_def generateObfuscatedName_def getAntiTamperCode_def written_def
        path_join_def path_normalize_def path_segments_def path_dirname_def path_basename_def
        path_extname_def path_relative_def path_sep_def
        toLowerCase_def upper_chars_def lower_chars_def
        name_atoms_def regex_special_def match_src_def match_name_quote_def
        is_quote_def is_line_terminator_def Let_def)

subsection \<open>C2: an HTML file the minifier rejects\<close>

text \<open>
  C2 as stated fails when \<^verbatim>\<open>obfuscateFilenames\<close> is on: the \<^verbatim>\<open>catch\<close> keeps the
  variable \<^verbatim>\<open>html\<close>, which by then holds the text with its script references rewritten,
  not the text as read. In the build of \<open>ex_flat\<close> with minification and file name
  obfuscation on and a minifier that throws, the warning is logged and the page written
  differs from the page read.
\<close>

theorem html_fallback_differs:
  "minify (shipped_config\<lparr> obfuscateFilenames := True \<rparr>)
   \<and> readFileSync ex_flat ''index.html'' = Inr ''<script src=\"app.js\"></script>''
   \<and> minifyHTML ex_env ''<script src=\"01234567.js\"></script>'' = None
   \<and> (case build (shipped_config\<lparr> obfuscateFilenames := True \<rparr>) ex_env ex_flat Map.empty of
        Inl err \<Rightarrow> None
      | Inr st \<Rightarrow> Some (written st ''dist/index.html'', Warn_minify ''index.html'' \<in> set (console st)))
     = Some (Some ''<script src=\"01234567.js\"></script>'', True)
   \<and> ''<script src=\"01234567.js\"></script>'' \<noteq> ''<script src=\"app.js\"></script>''"
  by (simp add: build_def prepare_output_def processDirectory_def copyDataDirectory_def
        ex_flat_def ex_env_def shipped_config_def lower_ext_def
        processFile_def processFile_js_def processFile_html_def
        ensure_dir_def existsSync_def mkdirSync_def writeFileSync_def readFileSync_def rmSync_def
        shouldExclude_def generateObfuscatedName_def getAntiTamperCode_def written_def
        path_join_def path_normalize_def path_segments_def path_dirname_def path_basename_def
        path_extname_def path_relative_def path_sep_def
        toLowerCase_def upper_chars_def lower_chars_def
        name_atoms_def regex_special_def match_src_def match_name_quote_def
        is_quote_def is_line_terminator_def Let_def)

text \<open>
  C2, amended: for an \<^verbatim>\<open>.html\<close> or \<^verbatim>\<open>.htm\<close> file, with minification on and the minifier
  throwing on the text handed to it, a warning is logged and the text written is the text
  that was handed to the minifier: the text as read with its script references rewritten
  when file name obfuscation is on, and the text as read itself when it is off. The file
  system calls are taken to succeed.
\<close>

theorem html_minify_failure_keeps_text:
  assumes "lower_ext filePath = ''.html'' \<or> lower_ext filePath = ''.htm''"
    and "minify cfg"
    and "readFileSync src filePath = Inr html"
    and "(if obfuscateFilenames cfg then update_refs (fileMapping st) html else Inr html)
         = Inr html'"
    and "minifyHTML e html' = None"
    and "ensure_dir (out st) (output_dir cfg relativePath) = Inr out1"
    and "writable out1 (output_path cfg relativePath)"
  shows "\<exists>st'. processFile cfg e src filePath relativePath st = Inr st'
           \<and> console st' = console st @
                 [Warn_minify (path_basename filePath), Log_processed relativePath None]
           \<and> written st' (output_path cfg relativePath) = Some html'
           \<and> (\<not> obfuscateFilenames cfg \<longrightarrow> html' = html)"
proof -
  have "processFile cfg e src filePath relativePath st =
         Inr (st\<lparr> out := out1(path_segments (output_path cfg relativePath)
                          \<mapsto> FileEntry (if minify cfg
                                           then (case minifyHTML e html' of
                                                   Some result \<Rightarrow> result | None \<Rightarrow> html')
                                           else html')),
                  console := console st
                    @ (if minify cfg \<and> minifyHTML e html' = None
                       then [Warn_minify (path_basename filePath)] else [])
                    @ [Log_processed relativePath None] \<rparr>)"
    using assms(1,3,4,6,7) by (rule processFile_html_eq)
  moreover have "\<not> obfuscateFilenames cfg \<longrightarrow> html' = html"
    using assms(4) by auto
  ultimately show ?thesis
    using assms(2,5) by (simp add: written_def)
qed

theorem html_minify_failure_keeps_text_witness:
  "(case processFile shipped_config ex_env ex_flat ''index.html'' ''index.html''
           \<lparr> out = [[''dist''] \<mapsto> DirEntry], fileMapping = [], console = [], clock = 0 \<rparr> of
      Inl err \<Rightarrow> None
    | Inr st' \<Rightarrow> Some (console st', written st' ''dist/index.html''))
   = Some ([Warn_minify ''index.html'', Log_processed ''index.html'' None],
           Some ''<script src=\"app.js\"></script>'')"
proof -
  let ?st = "\<lparr> out = [[''dist''] \<mapsto> DirEntry], fileMapping = [], console = [], clock = 0 \<rparr>"
  have ext: "lower_ext ''index.html'' = ''.html'' \<or> lower_ext ''index.html'' = ''.htm''"
    by (simp add: lower_ext_def path_extname_def path_basename_def toLowerCase_def
          upper_chars_def lower_chars_def Let_def)
  have min: "minify shipped_config" by (simp add: shipped_config_def)
  have rd: "readFileSync ex_flat ''index.html'' = Inr ''<script src=\"app.js\"></script>''"
    by (simp add: readFileSync_def path_segments_def ex_flat_def)
  have refs: "(if obfuscateFilenames shipped_config
               then update_refs (fileMapping ?st) ''<script src=\"app.js\"></script>''
               else Inr ''<script src=\"app.js\"></script>'')
              = Inr ''<script src=\"app.js\"></script>''"
    by (simp add: shipped_config_def)
  have fail: "minifyHTML ex_env ''<script src=\"app.js\"></script>'' = None"
    by (simp add: ex_env_def)
  have od: "output_dir shipped_config ''index.html'' = ''dist''"
    by (simp add: output_dir_def shipped_config_def path_join_def path_normalize_def
          path_segments_def path_dirname_def path_sep_def)
  have dir: "ensure_dir (out ?st) (output_dir shipped_config ''index.html'')
             = Inr [[''dist''] \<mapsto> DirEntry]"
    unfolding od by (simp add: ensure_dir_def existsSync_def path_segments_def)
  have op: "output_path shipped_config ''index.html'' = ''dist/index.html''"
    by (simp add: output_path_def shipped_config_def path_join_def path_normalize_def
          path_segments_def path_sep_def)
  have wr: "writable [[''dist''] \<mapsto> DirEntry] (output_path shipped_config ''index.html'')"
    unfolding op by (simp add: writable_def path_segments_def)
  from html_minify_failure_keeps_text [OF ext min rd refs fail dir wr]
  obtain st' where
    "processFile shipped_config ex_env ex_flat ''index.html'' ''index.html'' ?st = Inr st'"
    "console st' = console ?st @
       [Warn_minify (path_basename ''index.html''), Log_processed ''index.html'' None]"
    "written st' (output_path shipped_config ''index.html'')
     = Some ''<script src=\"app.js\"></script>''"
    by blast
  then show ?thesis unfolding op by (simp add: path_basename_def)
qed

subsection \<open>C3: the output when minification is off\<close>

text \<open>
  C3 as stated fails for HTML files: with \<^verbatim>\<open>obfuscateFilenames\<close> on, the HTML branch
  rewrites the script references whether or not minification is on (lines 145 to 150
  stand before the test of \<^verbatim>\<open>config.minify\<close>). With minification off and file name
  obfuscation on, the build of \<open>ex_flat\<close> writes a page that differs from the page read.
\<close>

theorem unminified_html_differs:
  "\<not> minify (shipped_config\<lparr> minify := False, obfuscateFilenames := True \<rparr>)
   \<and> lower_ext ''index.html'' = ''.html''
   \<and> readFileSync ex_flat ''index.html'' = Inr ''<script src=\"app.js\"></script>''
   \<and> (case build (shipped_config\<lparr> minify := False, obfuscateFilenames := True \<rparr>)
              ex_env ex_flat Map.empty of
        Inl err \<Rightarrow> None
      | Inr st \<Rightarrow> written st ''dist/index.html'')
     = Some ''<script src=\"01234567.js\"></script>''
   \<and> ''<script src=\"01234567.js\"></script>'' \<noteq> ''<script src=\"app.js\"></script>''"
  by (simp add: build_def prepare_output_def processDirectory_def copyDataDirectory_def
        ex_flat_def ex_env_def shipped_config_def lower_ext_def
        processFile_def processFile_js_def processFile_html_def
        ensure_dir_def existsSync_def mkdirSync_def writeFileSync_def readFileSync_def rmSync_def
        shouldExclude_def generateObfuscatedName_def getAntiTamperCode_def written_def
        path_join_def path_normalize_def path_segments_def path_dirname_def path_basename_def
        path_extname_def path_relative_def path_sep_def
        toLowerCase_def upper_chars_def lower_chars_def
        name_atoms_def regex_special_def match_src_def match_name_quote_def
        is_quote_def is_line_terminator_def Let_def)

text \<open>
  C3, amended: when minification is off, the text written for a \<^verbatim>\<open>.js\<close>, \<^verbatim>\<open>.html\<close> or
  \<^verbatim>\<open>.css\<close> file is the text read, with two exceptions: a \<^verbatim>\<open>.js\<close> output has the result
  of \<open>getAntiTamperCode\<close> in front (empty unless a non-empty list of allowed domains is
  configured), and an \<^verbatim>\<open>.html\<close> output has its script references rewritten when file
  name obfuscation is on. The file system calls are taken to succeed. The statement is
  about texts: a \<^verbatim>\<open>.js\<close> or \<^verbatim>\<open>.html\<close> file is decoded and its text encoded again, so
  the bytes written are those read only for a file that is UTF-8.
\<close>

theorem unminified_output:
  assumes "\<not> minify cfg"
    and "readFileSync src filePath = Inr content"
    and "ensure_dir (out st) (output_dir cfg relativePath) = Inr out1"
  shows "(lower_ext filePath = ''.js''
            \<and> writable out1 (js_output_path cfg e st filePath relativePath)
          \<longrightarrow> (\<exists>st'. processFile cfg e src filePath relativePath st = Inr st'
                \<and> written st' (js_output_path cfg e st filePath relativePath)
                    = Some (getAntiTamperCode cfg @ content)))
         \<and> (allowedDomains cfg = None \<or> allowedDomains cfg = Some []
              \<longrightarrow> getAntiTamperCode cfg = [])
         \<and> (lower_ext filePath = ''.css'' \<and> writable out1 (output_path cfg relativePath)
              \<longrightarrow> (\<exists>st'. processFile cfg e src filePath relativePath st = Inr st'
                    \<and> written st' (output_path cfg relativePath) = Some content))
         \<and> (lower_ext filePath = ''.html'' \<and> \<not> obfuscateFilenames cfg
              \<and> writable out1 (output_path cfg relativePath)
              \<longrightarrow> (\<exists>st'. processFile cfg e src filePath relativePath st = Inr st'
                    \<and> written st' (output_path cfg relativePath) = Some content))
         \<and> (\<forall>html'. lower_ext filePath = ''.html'' \<and> obfuscateFilenames cfg
              \<and> update_refs (fileMapping st) content = Inr html'
              \<and> writable out1 (output_path cfg relativePath)
              \<longrightarrow> (\<exists>st'. processFile cfg e src filePath relativePath st = Inr st'
                    \<and> written st' (output_path cfg relativePath) = Some html'))"
proof (intro conjI impI allI)
  assume a: "lower_ext filePath = ''.js''
             \<and> writable out1 (js_output_path cfg e st filePath relativePath)"
  have "js_body cfg e content = content" using assms(1) by (simp add: js_body_def)
  with processFile_js_eq [of filePath src content st cfg relativePath out1 e] a assms(2,3)
  show "\<exists>st'. processFile cfg e src filePath relativePath st = Inr st'
          \<and> written st' (js_output_path cfg e st filePath relativePath)
              = Some (getAntiTamperCode cfg @ content)"
    by (simp add: written_def)
next
  assume "allowedDomains cfg = None \<or> allowedDomains cfg = Some []"
  then show "getAntiTamperCode cfg = []" by (auto simp: getAntiTamperCode_def)
next
  assume a: "lower_ext filePath = ''.css'' \<and> writable out1 (output_path cfg relativePath)"
  then have "processFile cfg e src filePath relativePath st =
         Inr (st\<lparr> out := out1(path_segments (output_path cfg relativePath)
                          \<mapsto> FileEntry content),
                  console := console st @ [Log_copied relativePath] \<rparr>)"
    using assms by (intro processFile_copy_eq) simp_all
  then show "\<exists>st'. processFile cfg e src filePath relativePath st = Inr st'
          \<and> written st' (output_path cfg relativePath) = Some content"
    by (simp add: written_def)
next
  assume a: "lower_ext filePath = ''.html'' \<and> \<not> obfuscateFilenames cfg
             \<and> writable out1 (output_path cfg relativePath)"
  then have "(if obfuscateFilenames cfg then update_refs (fileMapping st) content
              else Inr content) = Inr content"
    by simp
  with processFile_html_eq [of filePath src content cfg st content relativePath out1 e] a assms
  show "\<exists>st'. processFile cfg e src filePath relativePath st = Inr st'
          \<and> written st' (output_path cfg relativePath) = Some content"
    by (simp add: written_def)
next
  fix html'
  assume a: "lower_ext filePath = ''.html'' \<and> obfuscateFilenames cfg
             \<and> update_refs (fileMapping st) content = Inr html'
             \<and> writable out1 (output_path cfg relativePath)"
  then have "(if obfuscateFilenames cfg then update_refs (fileMapping st) content
              else Inr content) = Inr html'"
    by simp
  with processFile_html_eq [of filePath src content cfg st html' relativePath out1 e] a assms
  show "\<exists>st'. processFile cfg e src filePath relativePath st = Inr st'
          \<and> written st' (output_path cfg relativePath) = Some html'"
    by (simp add: written_def)
qed

theorem unminified_output_witness:
  "(case processFile (shipped_config\<lparr> minify := False, obfuscateFilenames := True \<rparr>) ex_env
           ex_flat ''index.html'' ''index.html''
           \<lparr> out = [[''dist''] \<mapsto> DirEntry], fileMapping = [(''app.js'', ''01234567.js'')],
             console = [], clock = 1 \<rparr> of
      Inl err \<Rightarrow> None
    | Inr st' \<Rightarrow> written st' ''dist/index.html'')
   = Some ''<script src=\"01234567.js\"></script>''
   \<and> (case processFile (shipped_config\<lparr> minify := False \<rparr>) ex_env ex_flat
           ''index.html'' ''index.html''
           \<lparr> out = [[''dist''] \<mapsto> DirEntry], fileMapping = [], console = [], clock = 0 \<rparr> of
      Inl err \<Rightarrow> None
    | Inr st' \<Rightarrow> written st' ''dist/index.html'')
   = Some ''<script src=\"app.js\"></script>''
   \<and> (case processFile (shipped_config\<lparr> minify := False \<rparr>) ex_env ex_flat
           ''app.js'' ''app.js''
           \<lparr> out = [[''dist''] \<mapsto> DirEntry], fileMapping = [], console = [], clock = 0 \<rparr> of
      Inl err \<Rightarrow> None
    | Inr st' \<Rightarrow> written st' ''dist/app.js'')
   = Some ''console.log(1)''"
proof -
  let ?cfg = "shipped_config\<lparr> minify := False \<rparr>"
  let ?obf = "shipped_config\<lparr> minify := False, obfuscateFilenames := True \<rparr>"
  let ?st = "\<lparr> out = [[''dist''] \<mapsto> DirEntry], fileMapping = [], console = [], clock = 0 \<rparr>"
  let ?st1 = "\<lparr> out = [[''dist''] \<mapsto> DirEntry], fileMapping = [(''app.js'', ''01234567.js'')],
               console = [], clock = 1 \<rparr>"
  note paths = output_dir_def output_path_def js_output_path_def js_output_name_def
    shipped_config_def path_join_def path_normalize_def path_segments_def path_dirname_def
    path_basename_def path_sep_def
  have nomin: "\<not> minify ?cfg" and nomin': "\<not> minify ?obf" by simp_all
  have ext: "lower_ext ''index.html'' = ''.html''" and extjs: "lower_ext ''app.js'' = ''.js''"
    by (simp_all add: lower_ext_def path_extname_def path_basename_def toLowerCase_def
          upper_chars_def lower_chars_def Let_def)
  have rd: "readFileSync ex_flat ''index.html'' = Inr ''<script src=\"app.js\"></script>''"
    and rdjs: "readFileSync ex_flat ''app.js'' = Inr ''console.log(1)''"
    by (simp_all add: readFileSync_def path_segments_def ex_flat_def)
  have dir: "ensure_dir (out ?st) (output_dir ?cfg ''index.html'') = Inr [[''dist''] \<mapsto> DirEntry]"
    and dir': "ensure_dir (out ?st1) (output_dir ?obf ''index.html'') = Inr [[''dist''] \<mapsto> DirEntry]"
    and dirjs: "ensure_dir (out ?st) (output_dir ?cfg ''app.js'') = Inr [[''dist''] \<mapsto> DirEntry]"
    by (simp_all add: ensure_dir_def existsSync_def paths)
  have op: "output_path ?cfg ''index.html'' = ''dist/index.html''"
    and op': "output_path ?obf ''index.html'' = ''dist/index.html''"
    and jp: "js_output_path ?cfg ex_env ?st ''app.js'' ''app.js'' = ''dist/app.js''"
    by (simp_all add: paths)
  have wr: "writable [[''dist''] \<mapsto> DirEntry] ''dist/index.html''"
    and wrjs: "writable [[''dist''] \<mapsto> DirEntry] ''dist/app.js''"
    by (simp_all add: writable_def path_segments_def)
  have refs: "update_refs (fileMapping ?st1) ''<script src=\"app.js\"></script>''
              = Inr ''<script src=\"01234567.js\"></script>''"
    by (simp add: name_atoms_def regex_special_def match_src_def match_name_quote_def
          is_quote_def is_line_terminator_def)
  have guard: "getAntiTamperCode ?cfg = []"
    by (simp add: getAntiTamperCode_def shipped_config_def)
  from unminified_output [OF nomin' rd dir', of ex_env,
         THEN conjunct2, THEN conjunct2, THEN conjunct2, THEN conjunct2, THEN spec,
         THEN mp, OF conjI [OF ext conjI [OF _ conjI [OF refs]]]]
    wr
  obtain st' where "processFile ?obf ex_env ex_flat ''index.html'' ''index.html'' ?st1 = Inr st'"
    and "written st' (output_path ?obf ''index.html'')
         = Some ''<script src=\"01234567.js\"></script>''"
    unfolding op' by auto
  then have first: "(case processFile ?obf ex_env ex_flat ''index.html'' ''index.html'' ?st1 of
                       Inl err \<Rightarrow> None | Inr st' \<Rightarrow> written st' ''dist/index.html'')
                    = Some ''<script src=\"01234567.js\"></script>''"
    unfolding op' by simp
  from unminified_output [OF nomin rd dir, of ex_env,
         THEN conjunct2, THEN conjunct2, THEN conjunct2, THEN conjunct1]
    ext wr
  obtain st' where "processFile ?cfg ex_env ex_flat ''index.html'' ''index.html'' ?st = Inr st'"
    and "written st' (output_path ?cfg ''index.html'') = Some ''<script src=\"app.js\"></script>''"
    unfolding op by (auto simp: shipped_config_def)
  then have second: "(case processFile ?cfg ex_env ex_flat ''index.html'' ''index.html'' ?st of
                        Inl err \<Rightarrow> None | Inr st' \<Rightarrow> written st' ''dist/index.html'')
                     = Some ''<script src=\"app.js\"></script>''"
    unfolding op by simp
  from unminified_output [OF nomin rdjs dirjs, of ex_env, THEN conjunct1]
    extjs wrjs
  obtain st' where "processFile ?cfg ex_env ex_flat ''app.js'' ''app.js'' ?st = Inr st'"
    and "written st' (js_output_path ?cfg ex_env ?st ''app.js'' ''app.js'')
         = Some (getAntiTamperCode ?cfg @ ''console.log(1)'')"
    unfolding jp by auto
  then have third: "(case processFile ?cfg ex_env ex_flat ''app.js'' ''app.js'' ?st of
                       Inl err \<Rightarrow> None | Inr st' \<Rightarrow> written st' ''dist/app.js'')
                    = Some ''console.log(1)''"
    unfolding jp guard by simp
  from first second third show ?thesis by (intro conjI)
qed

subsection \<open>C4: the CSS transform applied twice\<close>

text \<open>
  C4 as stated, that the CSS transform is idempotent on every input, fails: removing one
  comment can join the characters around it into a new comment, which only a second run
  removes. On \<^verbatim>\<open>//**/*a*/\<close> the first run deletes \<^verbatim>\<open>/**/\<close> and leaves
  \<^verbatim>\<open>/*a*/\<close>; the second run leaves the empty text.
\<close>

theorem css_minify_not_idempotent:
  "css_minify ''//**/*a*/'' = ''/*a*/''
   \<and> css_minify (css_minify ''//**/*a*/'') = []
   \<and> css_minify (css_minify ''//**/*a*/'') \<noteq> css_minify ''//**/*a*/''"
proof -
  have first: "css_minify ''//**/*a*/'' = ''/*a*/''" by code_simp
  have second: "css_minify ''/*a*/'' = []" by code_simp
  from first second show ?thesis by simp
qed

text \<open>
  C4, amended: applying the CSS transform to its own output gives the same text exactly
  when that output holds no block comment (no \<^verbatim>\<open>/*\<close> with a \<^verbatim>\<open>*/\<close> behind it). In
  particular the transform is idempotent on every input whose output holds no block
  comment.
\<close>

theorem css_minify_idempotent_iff:
  "css_minify (css_minify css) = css_minify css \<longleftrightarrow> \<not> has_comment (css_minify css)"
proof
  assume eq: "css_minify (css_minify css) = css_minify css"
  show "\<not> has_comment (css_minify css)"
  proof
    assume "has_comment (css_minify css)"
    then have "length (strip_comments (css_minify css)) < length (css_minify css)"
      by (rule strip_comments_length_less)
    moreover have "length (css_minify (css_minify css)) \<le> length (strip_comments (css_minify css))"
    proof -
      let ?a = "strip_comments (css_minify css)"
      have "length (trim (strip_punct_ws (collapse_ws ?a))) \<le> length (strip_punct_ws (collapse_ws ?a))"
        by (rule trim_length_le)
      also have "\<dots> \<le> length (collapse_ws ?a)" by (rule strip_punct_ws_length_le)
      also have "\<dots> \<le> length ?a" by (rule collapse_ws_length_le)
      finally show ?thesis unfolding css_minify_def [of "css_minify css"] .
    qed
    ultimately show False using eq by simp
  qed
next
  assume nc: "\<not> has_comment (css_minify css)"
  let ?m = "strip_punct_ws (collapse_ws (strip_comments css))"
  have m: "css_minify css = trim ?m" by (simp add: css_minify_def)
  have t: "tidy (css_minify css)" by (rule tidy_css_minify)
  have "css_minify (css_minify css) = trim (strip_punct_ws (collapse_ws (css_minify css)))"
    unfolding css_minify_def [of "css_minify css"] using nc by (simp add: strip_comments_id)
  also have "\<dots> = trim (css_minify css)"
    using t by (simp add: tidy_collapse_ws tidy_strip_punct_ws_id)
  also have "\<dots> = css_minify css" unfolding m by (rule trim_trim)
  finally show "css_minify (css_minify css) = css_minify css" .
qed

theorem css_minify_idempotent_iff_witness:
  "css_minify (css_minify ''a { b : c ; }  /* x */ d'') = css_minify ''a { b : c ; }  /* x */ d''
   \<and> \<not> has_comment (css_minify ''a { b : c ; }  /* x */ d'')
   \<and> css_minify ''a { b : c ; }  /* x */ d'' = ''a{b:c;}d''"
proof -
  have out: "css_minify ''a { b : c ; }  /* x */ d'' = ''a{b:c;}d''" by code_simp
  have "\<not> has_comment ''a{b:c;}d''" by simp
  with css_minify_idempotent_iff [of "''a { b : c ; }  /* x */ d''"] out show ?thesis by simp
qed

subsection \<open>C5: a JavaScript file terser rejects\<close>

text \<open>
  C5: for a \<^verbatim>\<open>.js\<close> file, with minification on and terser throwing on the code read,
  a warning is logged, the code as read is what the branch carries on with (the guard, if
  any, is put in front of it, and the result is written), and the build goes on: as long
  as the calls of the file system succeed (the output directory exists or can be made, the
  output file can be written), \<^verbatim>\<open>processFile\<close> returns, and the walker turns to the
  remaining entries of the directory.
\<close>

theorem js_minify_failure_keeps_code:
  assumes "lower_ext filePath = ''.js''"
    and "minify cfg"
    and "readFileSync src filePath = Inr code"
    and "terser e code = None"
    and "ensure_dir (out st) (output_dir cfg relativePath) = Inr out1"
    and "writable out1 (js_output_path cfg e st filePath relativePath)"
  shows "\<exists>st'. processFile cfg e src filePath relativePath st = Inr st'
           \<and> console st' = console st @
                 [Warn_minify (path_basename filePath),
                  Log_processed relativePath
                    (if obfuscateFilenames cfg then Some (js_output_name cfg e st filePath)
                     else None)]
           \<and> written st' (js_output_path cfg e st filePath relativePath)
               = Some (getAntiTamperCode cfg @ code)
           \<and> (\<forall>baseDir dir item content items.
                 filePath = path_join dir item \<and> relativePath = path_relative baseDir filePath
                 \<and> \<not> shouldExclude cfg filePath \<longrightarrow>
                 processItems cfg e src baseDir dir ((item, FileNode content) # items) st
                 = processItems cfg e src baseDir dir items st')"
proof -
  let ?st' = "\<lparr> out = out1(path_segments (js_output_path cfg e st filePath relativePath)
                         \<mapsto> FileEntry (getAntiTamperCode cfg @ js_body cfg e code)),
               fileMapping =
                 (if obfuscateFilenames cfg
                  then AList.update (path_basename filePath) (js_output_name cfg e st filePath)
                         (fileMapping st)
                  else fileMapping st),
               console = console st
                 @ (if minify cfg \<and> terser e code = None
                    then [Warn_minify (path_basename filePath)] else [])
                 @ [Log_processed relativePath
                      (if obfuscateFilenames cfg then Some (js_output_name cfg e st filePath)
                       else None)],
               clock = (if obfuscateFilenames cfg then Suc (clock st) else clock st) \<rparr>"
  have run: "processFile cfg e src filePath relativePath st = Inr ?st'"
    using assms(1,3,5,6) by (rule processFile_js_eq)
  have body: "js_body cfg e code = code"
    using assms(2,4) by (simp add: js_body_def)
  have "console ?st' = console st @
          [Warn_minify (path_basename filePath),
           Log_processed relativePath
             (if obfuscateFilenames cfg then Some (js_output_name cfg e st filePath) else None)]"
    using assms(2,4) by simp
  moreover have "written ?st' (js_output_path cfg e st filePath relativePath)
                 = Some (getAntiTamperCode cfg @ code)"
    by (simp add: written_def body)
  moreover have "processItems cfg e src baseDir dir ((item, FileNode content) # items) st
                 = processItems cfg e src baseDir dir items ?st'"
    if "filePath = path_join dir item" "relativePath = path_relative baseDir filePath"
       "\<not> shouldExclude cfg filePath"
    for baseDir dir item content items
    using that run by (simp add: Let_def)
  ultimately show ?thesis using run by blast
qed

theorem js_minify_failure_keeps_code_witness:
  "(case processFile shipped_config ex_env ex_site ''js/app.js'' ''js/app.js''
           \<lparr> out = [[''dist''] \<mapsto> DirEntry], fileMapping = [], console = [], clock = 0 \<rparr> of
      Inl err \<Rightarrow> None
    | Inr st' \<Rightarrow> Some (console st', written st' ''dist/js/app.js''))
   = Some ([Warn_minify ''app.js'', Log_processed ''js/app.js'' None], Some ''console.log(1)'')"
proof -
  let ?st = "\<lparr> out = [[''dist''] \<mapsto> DirEntry], fileMapping = [], console = [], clock = 0 \<rparr>"
  have ext: "lower_ext ''js/app.js'' = ''.js''"
    by (simp add: lower_ext_def path_extname_def path_basename_def toLowerCase_def
          upper_chars_def lower_chars_def Let_def)
  have min: "minify shipped_config" by (simp add: shipped_config_def)
  have rd: "readFileSync ex_site ''js/app.js'' = Inr ''console.log(1)''"
    by (simp add: readFileSync_def path_segments_def ex_site_def)
  have fail: "terser ex_env ''console.log(1)'' = None" by (simp add: ex_env_def)
  have od: "output_dir shipped_config ''js/app.js'' = ''dist/js''"
    by (simp add: output_dir_def shipped_config_def path_join_def path_normalize_def
          path_segments_def path_dirname_def path_sep_def)
  have dir: "ensure_dir (out ?st) (output_dir shipped_config ''js/app.js'')
             = Inr [[''dist''] \<mapsto> DirEntry, [''dist'', ''js''] \<mapsto> DirEntry]"
    unfolding od
    by (simp add: ensure_dir_def existsSync_def mkdirSync_def path_segments_def)
  have jp: "js_output_path shipped_config ex_env ?st ''js/app.js'' ''js/app.js'' = ''dist/js/app.js''"
    unfolding js_output_path_def od
    by (simp add: js_output_name_def shipped_config_def path_basename_def path_join_def
          path_normalize_def path_segments_def path_sep_def)
  have wr: "writable [[''dist''] \<mapsto> DirEntry, [''dist'', ''js''] \<mapsto> DirEntry]
              (js_output_path shipped_config ex_env ?st ''js/app.js'' ''js/app.js'')"
    unfolding jp by (simp add: writable_def path_segments_def)
  from js_minify_failure_keeps_code [OF ext min rd fail dir wr]
  obtain st' where
    "processFile shipped_config ex_env ex_site ''js/app.js'' ''js/app.js'' ?st = Inr st'"
    "console st' = console ?st @
       [Warn_minify (path_basename ''js/app.js''),
        Log_processed ''js/app.js''
          (if obfuscateFilenames shipped_config
           then Some (js_output_name shipped_config ex_env ?st ''js/app.js'') else None)]"
    "written st' (js_output_path shipped_config ex_env ?st ''js/app.js'' ''js/app.js'')
     = Some (getAntiTamperCode shipped_config @ ''console.log(1)'')"
    by blast
  then show ?thesis
    unfolding jp
    by (simp add: path_basename_def shipped_config_def getAntiTamperCode_def)
qed

subsection \<open>C6: the domain guard\<close>

text \<open>
  C6: the content written for a \<^verbatim>\<open>.js\<close> file is the result of \<open>getAntiTamperCode\<close>
  followed by the code the minification step left (the minified code, or the code as read
  when minification is off or terser threw). When the list of allowed domains is not
  empty that result is the text of lines 73 to 80, which begins with \<^verbatim>\<open>(function(){\<close>
  and has the JSON text of the list behind \<^verbatim>\<open>var a=\<close>: the domains between quotation
  marks, separated by commas, between brackets; a domain without quotation mark,
  backslash and control character stands there as it is. It is the empty string when the
  list is \<^verbatim>\<open>null\<close> or empty. No other output depends on the list: for a file that is not
  a \<^verbatim>\<open>.js\<close> file \<^verbatim>\<open>processFile\<close> does the same whatever the list is, and so does the
  data stager.
\<close>

theorem domain_guard_prepended:
  \<open>(lower_ext filePath = ''.js'' \<and> readFileSync src filePath = Inr code
      \<and> ensure_dir (out st) (output_dir cfg relativePath) = Inr out1
      \<and> writable out1 (js_output_path cfg e st filePath relativePath)
    \<longrightarrow> (\<exists>st'. processFile cfg e src filePath relativePath st = Inr st'
              \<and> written st' (js_output_path cfg e st filePath relativePath)
                  = Some (getAntiTamperCode cfg @ js_body cfg e code)))
   \<and> (\<forall>ds. allowedDomains cfg = Some ds \<and> ds \<noteq> []
         \<longrightarrow> getAntiTamperCode cfg =
               ''(function(){'' @ [CHR 0x0A] @
               ''    var a=['' @ join_comma (map json_string ds) @ ''];'' @ [CHR 0x0A] @
               ''    var h=location.hostname;'' @ [CHR 0x0A] @
               ''    if(location.protocol!=='file:'&&h!=='' @ [CHR 0x27, CHR 0x27] @
                 ''&&h!=='localhost'&&!h.endsWith('.pages.dev')&&!a.some(function(d){return h===d||h.endsWith('.'+d);})){'' @ [CHR 0x0A] @
               ''      document.body.innerHTML='<div style="text-align:center;margin-top:200px;font-size:20px;">Unauthorized Access</div>';'' @ [CHR 0x0A] @
               ''      throw new Error('Domain verification failed');'' @ [CHR 0x0A] @
               ''    }'' @ [CHR 0x0A] @
               ''  })();'')
   \<and> (\<forall>s. (\<forall>c\<in>set s. c \<noteq> CHR 0x22 \<and> c \<noteq> CHR 0x5C \<and> 32 \<le> (of_char c :: nat))
         \<longrightarrow> json_string s = [CHR 0x22] @ s @ [CHR 0x22])
   \<and> (allowedDomains cfg = None \<or> allowedDomains cfg = Some []
         \<longrightarrow> getAntiTamperCode cfg = [])
   \<and> (lower_ext filePath \<noteq> ''.js''
         \<longrightarrow> processFile (cfg\<lparr> allowedDomains := d \<rparr>) e src filePath relativePath st
             = processFile cfg e src filePath relativePath st)
   \<and> copyDataDirectory (cfg\<lparr> allowedDomains := d \<rparr>) root st = copyDataDirectory cfg root st\<close>
proof (intro conjI impI allI)
  assume a: "lower_ext filePath = ''.js'' \<and> readFileSync src filePath = Inr code
      \<and> ensure_dir (out st) (output_dir cfg relativePath) = Inr out1
      \<and> writable out1 (js_output_path cfg e st filePath relativePath)"
  then have "processFile cfg e src filePath relativePath st =
         Inr \<lparr> out = out1(path_segments (js_output_path cfg e st filePath relativePath)
                         \<mapsto> FileEntry (getAntiTamperCode cfg @ js_body cfg e code)),
               fileMapping =
                 (if obfuscateFilenames cfg
                  then AList.update (path_basename filePath) (js_output_name cfg e st filePath)
                         (fileMapping st)
                  else fileMapping st),
               console = console st
                 @ (if minify cfg \<and> terser e code = None
                    then [Warn_minify (path_basename filePath)] else [])
                 @ [Log_processed relativePath
                      (if obfuscateFilenames cfg then Some (js_output_name cfg e st filePath)
                       else None)],
               clock = (if obfuscateFilenames cfg then Suc (clock st) else clock st) \<rparr>"
    by (intro processFile_js_eq) simp_all
  then show "\<exists>st'. processFile cfg e src filePath relativePath st = Inr st'
              \<and> written st' (js_output_path cfg e st filePath relativePath)
                  = Some (getAntiTamperCode cfg @ js_body cfg e code)"
    by (simp add: written_def)
next
  fix ds
  assume "allowedDomains cfg = Some ds \<and> ds \<noteq> []"
  then show \<open>getAntiTamperCode cfg =
               ''(function(){'' @ [CHR 0x0A] @
               ''    var a=['' @ join_comma (map json_string ds) @ ''];'' @ [CHR 0x0A] @
               ''    var h=location.hostname;'' @ [CHR 0x0A] @
               ''    if(location.protocol!=='file:'&&h!=='' @ [CHR 0x27, CHR 0x27] @
                 ''&&h!=='localhost'&&!h.endsWith('.pages.dev')&&!a.some(function(d){return h===d||h.endsWith('.'+d);})){'' @ [CHR 0x0A] @
               ''      document.body.innerHTML='<div style="text-align:center;margin-top:200px;font-size:20px;">Unauthorized Access</div>';'' @ [CHR 0x0A] @
               ''      throw new Error('Domain verification failed');'' @ [CHR 0x0A] @
               ''    }'' @ [CHR 0x0A] @
               ''  })();''\<close>
    by (simp add: getAntiTamperCode_def guard_snippet_def json_string_array_def)
next
  fix s :: string
  assume plain: "\<forall>c\<in>set s. c \<noteq> CHR 0x22 \<and> c \<noteq> CHR 0x5C \<and> 32 \<le> (of_char c :: nat)"
  from plain have "concat (map json_escape s) = s"
    by (rule json_escape_plain_text)
  then show "json_string s = [CHR 0x22] @ s @ [CHR 0x22]"
    by (simp add: json_string_def)
next
  assume "allowedDomains cfg = None \<or> allowedDomains cfg = Some []"
  then show "getAntiTamperCode cfg = []"
    by (auto simp: getAntiTamperCode_def)
next
  assume "lower_ext filePath \<noteq> ''.js''"
  then show "processFile (cfg\<lparr> allowedDomains := d \<rparr>) e src filePath relativePath st
             = processFile cfg e src filePath relativePath st"
    by (simp add: processFile_def processFile_html_def lower_ext_def Let_def split: sum.splits)
next
  show "copyDataDirectory (cfg\<lparr> allowedDomains := d \<rparr>) root st = copyDataDirectory cfg root st"
    by (simp add: copyDataDirectory_def)
qed

theorem domain_guard_prepended_witness:
  \<open>(case processFile
           (shipped_config\<lparr> allowedDomains :=
              Some [''example.com'',
                    [CHR ''a'', CHR 0x22, CHR ''b'', CHR 0x5C, CHR 0x0A, CHR 0x1F]] \<rparr>)
           ex_env ex_site ''js/app.js'' ''js/app.js''
           \<lparr> out = [[''dist''] \<mapsto> DirEntry], fileMapping = [], console = [], clock = 0 \<rparr> of
      Inl err \<Rightarrow> None
    | Inr st' \<Rightarrow> written st' ''dist/js/app.js'')
   = Some (''(function(){'' @ [CHR 0x0A] @
           ''    var a=["example.com","a'' @ [CHR 0x5C] @ ''"b'' @ [CHR 0x5C, CHR 0x5C, CHR 0x5C]
             @ ''n'' @ [CHR 0x5C] @ ''u001f"];'' @ [CHR 0x0A] @
           ''    var h=location.hostname;'' @ [CHR 0x0A] @
           ''    if(location.protocol!=='file:'&&h!=='' @ [CHR 0x27, CHR 0x27] @
             ''&&h!=='localhost'&&!h.endsWith('.pages.dev')&&!a.some(function(d){return h===d||h.endsWith('.'+d);})){'' @ [CHR 0x0A] @
           ''      document.body.innerHTML='<div style="text-align:center;margin-top:200px;font-size:20px;">Unauthorized Access</div>';'' @ [CHR 0x0A] @
           ''      throw new Error('Domain verification failed');'' @ [CHR 0x0A] @
           ''    }'' @ [CHR 0x0A] @
           ''  })();console.log(1)'')
   \<and> json_string ''example.com'' = [CHR 0x22] @ ''example.com'' @ [CHR 0x22]
   \<and> getAntiTamperCode (shipped_config\<lparr> allowedDomains := Some [] \<rparr>) = []
   \<and> getAntiTamperCode shipped_config = []
   \<and> processFile (shipped_config\<lparr> allowedDomains := Some [''example.com''] \<rparr>) ex_env ex_site
         ''index.html'' ''index.html''
         \<lparr> out = [[''dist''] \<mapsto> DirEntry], fileMapping = [], console = [], clock = 0 \<rparr>
       = processFile shipped_config ex_env ex_site ''index.html'' ''index.html''
           \<lparr> out = [[''dist''] \<mapsto> DirEntry], fileMapping = [], console = [], clock = 0 \<rparr>\<close>
proof -
  let ?ds = "[''example.com'', [CHR ''a'', CHR 0x22, CHR ''b'', CHR 0x5C, CHR 0x0A, CHR 0x1F]]"
  let ?cfg = "shipped_config\<lparr> allowedDomains := Some ?ds \<rparr>"
  let ?st = "\<lparr> out = [[''dist''] \<mapsto> DirEntry], fileMapping = [], console = [], clock = 0 \<rparr>"
  have ext: "lower_ext ''js/app.js'' = ''.js''"
    by (simp add: lower_ext_def path_extname_def path_basename_def toLowerCase_def
          upper_chars_def lower_chars_def Let_def)
  have ext2: "lower_ext ''index.html'' \<noteq> ''.js''"
    by (simp add: lower_ext_def path_extname_def path_basename_def toLowerCase_def
          upper_chars_def lower_chars_def Let_def)
  have rd: "readFileSync ex_site ''js/app.js'' = Inr ''console.log(1)''"
    by (simp add: readFileSync_def path_segments_def ex_site_def)
  have od: "output_dir ?cfg ''js/app.js'' = ''dist/js''"
    by (simp add: output_dir_def shipped_config_def path_join_def path_normalize_def
          path_segments_def path_dirname_def path_sep_def)
  have dir: "ensure_dir (out ?st) (output_dir ?cfg ''js/app.js'')
             = Inr [[''dist''] \<mapsto> DirEntry, [''dist'', ''js''] \<mapsto> DirEntry]"
    unfolding od
    by (simp add: ensure_dir_def existsSync_def mkdirSync_def path_segments_def)
  have jp: "js_output_path ?cfg ex_env ?st ''js/app.js'' ''js/app.js'' = ''dist/js/app.js''"
    unfolding js_output_path_def od
    by (simp add: js_output_name_def shipped_config_def path_basename_def path_join_def
          path_normalize_def path_segments_def path_sep_def)
  have wr: "writable [[''dist''] \<mapsto> DirEntry, [''dist'', ''js''] \<mapsto> DirEntry]
              (js_output_path ?cfg ex_env ?st ''js/app.js'' ''js/app.js'')"
    unfolding jp by (simp add: writable_def path_segments_def)
  have body: "js_body ?cfg ex_env ''console.log(1)'' = ''console.log(1)''"
    by (simp add: js_body_def ex_env_def)
  have dom: "allowedDomains ?cfg = Some ?ds \<and> ?ds \<noteq> []"
    by simp
  have json: \<open>join_comma (map json_string ?ds)
              = ''"example.com","a'' @ [CHR 0x5C] @ ''"b'' @ [CHR 0x5C, CHR 0x5C, CHR 0x5C]
                @ ''n'' @ [CHR 0x5C] @ ''u001f"''\<close>
    by (simp add: json_string_def json_escape_def hex_digit_def)
  note inst = domain_guard_prepended [of "''js/app.js''" ex_site "''console.log(1)''" ?st ?cfg
      "''js/app.js''" "[[''dist''] \<mapsto> DirEntry, [''dist'', ''js''] \<mapsto> DirEntry]" ex_env]
  from inst [THEN conjunct1, rule_format] ext rd dir wr obtain st'
    where run: "processFile ?cfg ex_env ex_site ''js/app.js'' ''js/app.js'' ?st = Inr st'"
      and wri: "written st' (js_output_path ?cfg ex_env ?st ''js/app.js'' ''js/app.js'')
                = Some (getAntiTamperCode ?cfg @ js_body ?cfg ex_env ''console.log(1)'')"
    by blast
  note g = inst [THEN conjunct2, THEN conjunct1, rule_format, OF dom]
  have first: \<open>(case processFile ?cfg ex_env ex_site ''js/app.js'' ''js/app.js'' ?st of
                  Inl err \<Rightarrow> None | Inr st' \<Rightarrow> written st' ''dist/js/app.js'')
   = Some (''(function(){'' @ [CHR 0x0A] @
           ''    var a=["example.com","a'' @ [CHR 0x5C] @ ''"b'' @ [CHR 0x5C, CHR 0x5C, CHR 0x5C]
             @ ''n'' @ [CHR 0x5C] @ ''u001f"];'' @ [CHR 0x0A] @
           ''    var h=location.hostname;'' @ [CHR 0x0A] @
           ''    if(location.protocol!=='file:'&&h!=='' @ [CHR 0x27, CHR 0x27] @
             ''&&h!=='localhost'&&!h.endsWith('.pages.dev')&&!a.some(function(d){return h===d||h.endsWith('.'+d);})){'' @ [CHR 0x0A] @
           ''      document.body.innerHTML='<div style="text-align:center;margin-top:200px;font-size:20px;">Unauthorized Access</div>';'' @ [CHR 0x0A] @
           ''      throw new Error('Domain verification failed');'' @ [CHR 0x0A] @
           ''    }'' @ [CHR 0x0A] @
           ''  })();console.log(1)'')\<close>
    using run wri unfolding jp g body json by simp
  have chars: "\<forall>c\<in>set ''example.com''. c \<noteq> CHR 0x22 \<and> c \<noteq> CHR 0x5C \<and> 32 \<le> (of_char c :: nat)"
    by simp
  note second = inst [THEN conjunct2, THEN conjunct2, THEN conjunct1, THEN spec, THEN mp, OF chars]
  have nil: "allowedDomains (shipped_config\<lparr> allowedDomains := Some [] \<rparr>) = None
             \<or> allowedDomains (shipped_config\<lparr> allowedDomains := Some [] \<rparr>) = Some []"
    by simp
  note third = domain_guard_prepended
      [of _ _ _ _ "shipped_config\<lparr> allowedDomains := Some [] \<rparr>",
       THEN conjunct2, THEN conjunct2, THEN conjunct2, THEN conjunct1, rule_format, OF nil]
  have null: "allowedDomains shipped_config = None \<or> allowedDomains shipped_config = Some []"
    by (simp add: shipped_config_def)
  note fourth = domain_guard_prepended
      [of _ _ _ _ shipped_config,
       THEN conjunct2, THEN conjunct2, THEN conjunct2, THEN conjunct1, rule_format, OF null]
  note fifth = domain_guard_prepended
      [of "''index.html''" ex_site _ ?st shipped_config "''index.html''" _ ex_env
          "Some [''example.com'']",
       THEN conjunct2, THEN conjunct2, THEN conjunct2, THEN conjunct2, THEN conjunct1,
       rule_format, OF ext2]
  show ?thesis
    by (intro conjI first second third fourth fifth)
qed

subsection \<open>C7: what the exclusion filter excludes\<close>

text \<open>
  C7: an entry is excluded exactly when its path relative to the source root equals an
  entry of the exclusion list, or starts with such an entry followed by the path
  separator, or its base name (its last component) equals such an entry. The entry is
  given by the names \<open>comps\<close> that lead to it from the source root, whose own segments
  are \<open>root\<close>; the walker hands \<open>shouldExclude\<close> the path joined from both. The
  comparisons are equalities of strings, so there is no globbing, no negation and no
  folding of case.
\<close>

theorem shouldExclude_iff:
  assumes "path_segments (inputDir cfg) = root"
    and "comps \<noteq> []"
    and "\<forall>n\<in>set (root @ comps). entry_name n"
  shows "shouldExclude cfg (join_sep (root @ comps)) \<longleftrightarrow>
         (\<exists>excluded\<in>set (exclude cfg).
            join_sep comps = excluded \<or>
            (\<exists>rest. join_sep comps = excluded @ ''/'' @ rest) \<or>
            last comps = excluded)"
proof -
  have rel: "path_relative (inputDir cfg) (join_sep (root @ comps)) = join_sep comps"
    using assms by (rule path_relative_below)
  from assms(2,3) have "CHR ''/'' \<notin> set (last (root @ comps))"
    by (auto simp: entry_name_def)
  with assms(2) have base: "path_basename (join_sep (root @ comps)) = last comps"
    using path_basename_join_sep [of "root @ comps"] by simp
  show ?thesis
    unfolding shouldExclude_def Let_def rel base list_ex_iff path_sep_def
    by (auto simp: prefix_def)
qed

theorem shouldExclude_iff_witness:
  "shouldExclude shipped_config ''node_modules/x/y.js''
   \<and> shouldExclude shipped_config ''docs/README.md''
   \<and> \<not> shouldExclude shipped_config ''docs/readme.md''
   \<and> \<not> shouldExclude shipped_config ''distribution/a.js''"
proof -
  have seg: "path_segments (inputDir shipped_config) = []"
    by (simp add: shipped_config_def path_segments_def)
  have a: "shouldExclude shipped_config (join_sep ([] @ [''node_modules'', ''x'', ''y.js'']))"
    using shouldExclude_iff [OF seg, of "[''node_modules'', ''x'', ''y.js'']"]
    by (simp add: entry_name_def shipped_config_def)
  have b: "shouldExclude shipped_config (join_sep ([] @ [''docs'', ''README.md'']))"
    using shouldExclude_iff [OF seg, of "[''docs'', ''README.md'']"]
    by (simp add: entry_name_def shipped_config_def)
  have c: "\<not> shouldExclude shipped_config (join_sep ([] @ [''docs'', ''readme.md'']))"
    using shouldExclude_iff [OF seg, of "[''docs'', ''readme.md'']"]
    by (simp add: entry_name_def shipped_config_def append_eq_Cons_conv)
  have d: "\<not> shouldExclude shipped_config (join_sep ([] @ [''distribution'', ''a.js'']))"
    using shouldExclude_iff [OF seg, of "[''distribution'', ''a.js'']"]
    by (simp add: entry_name_def shipped_config_def append_eq_Cons_conv)
  from a b c d show ?thesis by simp
qed

subsection \<open>C8: what ends up in the output data/llm directory\<close>

text \<open>
  C8 says that of \<^verbatim>\<open>data/llm/x.json\<close> and \<^verbatim>\<open>data/llm/x.pdf\<close> only \<^verbatim>\<open>x.json\<close> appears in
  the output \<^verbatim>\<open>data/llm\<close> directory, and the comments of build.js say the same
  (\<^verbatim>\<open>// Copy data directory (JSON files only, no PDFs)\<close>, line 209, and
  \<^verbatim>\<open>// Copy data/llm directory (excludes data/pdf and scripts by design)\<close>, line 258).
  The data stager on its own does so: run on the freshly made output directory it copies
  \<^verbatim>\<open>x.json\<close> and leaves \<^verbatim>\<open>x.pdf\<close> out. But the build runs the directory walker over
  \<^verbatim>\<open>'.'\<close> first, \<^verbatim>\<open>data\<close> is not in the shipped exclusion list, and the walker copies
  every file it has no branch for: after the build \<^verbatim>\<open>dist/data/llm/x.pdf\<close> is there.
\<close>

theorem pdf_reaches_output:
  "(case copyDataDirectory shipped_config ex_data
           \<lparr> out = [[''dist''] \<mapsto> DirEntry], fileMapping = [], console = [], clock = 0 \<rparr> of
      Inl err \<Rightarrow> None
    | Inr st \<Rightarrow>
        Some (written st ''dist/data/llm/x.json'', written st ''dist/data/llm/x.pdf'', console st))
     = Some (Some ''{}'', None, [Log_copying_data, Log_copied ''data/llm/x.json''])
   \<and> (case build shipped_config ex_env ex_data Map.empty of
        Inl err \<Rightarrow> None
      | Inr st \<Rightarrow>
          Some (written st ''dist/data/llm/x.json'', written st ''dist/data/llm/x.pdf'', console st))
     = Some (Some ''{}'', Some ''%PDF'',
             [Log_building, Log_copied ''data/llm/notes/readme.txt'',
              Log_copied ''data/llm/x.json'', Log_copied ''data/llm/x.pdf'', Log_copying_data,
              Log_copied ''data/llm/x.json'', Log_complete])"
  by (simp add: build_def prepare_output_def processDirectory_def copyDataDirectory_def
        ex_data_def ex_env_def shipped_config_def lower_ext_def
        processFile_def processFile_copy_def copyFileSync_def
        ensure_dir_def existsSync_def mkdirSync_def writeFileSync_def readFileSync_def rmSync_def
        shouldExclude_def written_def
        path_join_def path_normalize_def path_segments_def path_dirname_def path_basename_def
        path_extname_def path_relative_def path_sep_def
        toLowerCase_def upper_chars_def lower_chars_def Let_def)

subsection \<open>C9: two scripts with the same base name\<close>




subsection \<open>C10: the data stager makes the directory before it looks at the entries\<close>




end
